theory Spec2Isabelle
  imports Complex_Main "HOL-Library.Word"
begin

unbundle bit_operations_syntax

section \<open>Output and registry state\<close>

text \<open>
  The program writes Prometheus exposition lines to stdout with \<open>printf\<close>, error messages to
  stderr, and keeps the global nvlist \<open>metric_names\<close> (allocated with NV_UNIQUE_NAME) of the
  metric names whose HELP/TYPE pair has been handled. The three are the state that every
  printing function threads through.

  A histogram bucket label ends in \<open>le="..."\<close>. A bound is kept as the number that
  is printed: for the latency histograms \<open>%0.6f\<close> prints a number with six decimals,
  kept as its count of millionths; for the request size histograms \<open>%d\<close> prints an
  \<open>int\<close>. A label is the text that \<open>snprintf\<close> leaves in its buffer; the label
  \<open>LE text b\<close> stands for the text \<open><text>,le="<b>"\<close> when the buffer holds all of it
  (\<open>snprintf_le\<close> below cuts it otherwise).
\<close>

datatype le_bound =
    LeSeconds nat   \<comment> \<open>\<open>le="%0.6f"\<close>: the number printed, in millionths\<close>
  | LeBytes int     \<comment> \<open>\<open>le="%d"\<close>: the \<open>int\<close> printed\<close>
  | LeInf           \<comment> \<open>\<open>le="+Inf"\<close>\<close>

datatype label =
    L string              \<comment> \<open>the label text as built by \<open>snprintf\<close>\<close>
  | LE string le_bound    \<comment> \<open>\<open>"<text>,le=\"<bound>\""\<close>, not cut\<close>

text \<open>
  Doubles are kept as the expression the C code evaluates, so that a division by zero stays
  visible (HOL's own division would silently return 0).
\<close>

datatype dbl =
    DLit nat                \<comment> \<open>a literal such as \<open>100.0\<close> or \<open>0.0\<close>\<close>
  | DOfU64 "64 word"        \<comment> \<open>conversion of a \<open>uint64_t\<close> to double\<close>
  | DMul dbl dbl
  | DDiv dbl dbl

datatype line =
    Help string string                       \<comment> \<open>\<open># HELP <name> <help>\<close>\<close>
  | Type string string                       \<comment> \<open>\<open># TYPE <name> <type>\<close>\<close>
  | SampleU64 string "label option" "64 word" \<comment> \<open>\<open><name>{<label>} <PRIu64>\<close> or \<open><name> <PRIu64>\<close>\<close>
  | SampleD string "label option" dbl        \<comment> \<open>\<open><name>{<label>} %f\<close> or \<open><name> %f\<close>\<close>
  | Comment string                           \<comment> \<open>\<open>### ...\<close>\<close>

record pstate =
  metric_names :: "string list"
  out :: "line list"
  stderr :: "string list"

definition init_state :: pstate where
  "init_state = \<lparr>metric_names = [], out = [], stderr = []\<rparr>"

definition printf :: "line \<Rightarrow> pstate \<Rightarrow> pstate" where
  "printf l st = st\<lparr>out := out st @ [l]\<rparr>"

definition fprintf_stderr :: "string \<Rightarrow> pstate \<Rightarrow> pstate" where
  "fprintf_stderr msg st = st\<lparr>stderr := stderr st @ [msg]\<rparr>"

text \<open>\<open>snprintf(buf, size, ...)\<close> keeps at most \<open>size - 1\<close> characters of the formatted text.\<close>

definition snprintf :: "nat \<Rightarrow> string \<Rightarrow> string" where
  "snprintf n s = take (n - 1) s"

text \<open>\<open>%lu\<close> and \<open>PRIu64\<close>: an unsigned value in decimal.\<close>

function decimal :: "nat \<Rightarrow> string" where
  "decimal n = (if n < 10 then [''0123456789'' ! n]
                else decimal (n div 10) @ [''0123456789'' ! (n mod 10)])"
  by pat_completeness auto
termination
  by (relation "measure id") auto

declare decimal.simps [simp del]

text \<open>
  The text of a bound: \<open>%0.6f\<close> prints the whole part and six decimals, \<open>%d\<close> a signed
  decimal number.
\<close>

definition digits6 :: "nat \<Rightarrow> string" where
  "digits6 n = map (\<lambda>k. ''0123456789'' ! (n div 10 ^ k mod 10)) [5, 4, 3, 2, 1, 0]"

fun le_text :: "le_bound \<Rightarrow> string" where
  "le_text (LeSeconds u) = decimal (u div 1000000) @ ''.'' @ digits6 (u mod 1000000)"
| "le_text (LeBytes i) = (if i < 0 then ''-'' @ decimal (nat (- i)) else decimal (nat i))"
| "le_text LeInf = ''+Inf''"

fun label_text :: "label \<Rightarrow> string" where
  "label_text (L s) = s"
| "label_text (LE s b) = s @ '',le=\"'' @ le_text b @ ''\"''"

text \<open>
  \<open>snprintf(t, size, "<text>,le=\"<bound>\"", ...)\<close>: the label with its bound when the
  buffer holds all of it, and otherwise the first \<open>size - 1\<close> characters of its text,
  which do not end in the closing quote of the bound.
\<close>

definition snprintf_le :: "nat \<Rightarrow> string \<Rightarrow> le_bound \<Rightarrow> label" where
  "snprintf_le n s b =
     (if length (label_text (LE s b)) < n then LE s b
      else L (snprintf n (label_text (LE s b))))"

text \<open>\<open>ZFS_MAX_DATASET_NAME_LEN\<close> comes from the ZFS headers, where it is 256.\<close>

definition ZFS_MAX_DATASET_NAME_LEN :: nat where
  "ZFS_MAX_DATASET_NAME_LEN = 256"

section \<open>escape_string\<close>

text \<open>
  The \<open>switch\<close> falls through from the two escaped characters into \<open>default\<close>: a backslash is
  stored first, then the character itself. The result is written to a buffer of
  \<open>ZFS_MAX_DATASET_NAME_LEN << 1\<close> bytes, which holds the escaped form of any pool name:
  the name of a pool handle has fewer than \<open>ZFS_MAX_DATASET_NAME_LEN\<close> characters.
\<close>

fun escape_string :: "string \<Rightarrow> string" where
  "escape_string [] = []"
| "escape_string (c # s) =
     (if c = CHR ''\"'' \<or> c = CHR 0x5C then CHR 0x5C # c # escape_string s
      else c # escape_string s)"

section \<open>print_help_type, print_prom_u64, print_prom_d\<close>

definition print_help_type :: "string \<Rightarrow> string option \<Rightarrow> string option \<Rightarrow> pstate \<Rightarrow> pstate" where
  "print_help_type metric_name help ty st =
     (if metric_name \<notin> set (metric_names st) then
        let st1 = (case help of None \<Rightarrow> st | Some h \<Rightarrow> printf (Help metric_name h) st);
            st2 = (case ty of None \<Rightarrow> st1 | Some t \<Rightarrow> printf (Type metric_name t) st1)
        in st2\<lparr>metric_names := metric_names st2 @ [metric_name]\<rparr>
      else st)"

definition SIGNIFICANT_BITS :: nat where
  "SIGNIFICANT_BITS = 52"

definition print_prom_u64 ::
  "string \<Rightarrow> string \<Rightarrow> label option \<Rightarrow> 64 word \<Rightarrow> string option \<Rightarrow> string option \<Rightarrow> pstate \<Rightarrow> pstate" where
  "print_prom_u64 prefix metric lbl val help ty st =
     (let mask = push_bit SIGNIFICANT_BITS (1 :: 64 word) - 1;
          metric_name = snprintf 200 (prefix @ ''_'' @ metric);
          st1 = print_help_type metric_name help ty st
      in printf (SampleU64 metric_name lbl (val AND mask)) st1)"

definition print_prom_d ::
  "string \<Rightarrow> string \<Rightarrow> label option \<Rightarrow> dbl \<Rightarrow> string option \<Rightarrow> string option \<Rightarrow> pstate \<Rightarrow> pstate" where
  "print_prom_d prefix metric lbl val help ty st =
     (let metric_name = snprintf 200 (prefix @ ''_'' @ metric);
          st1 = print_help_type metric_name help ty st
      in printf (SampleD metric_name lbl val) st1)"

section \<open>The pool configuration\<close>

text \<open>
  The program reads the pool configuration through libnvpair lookups, each of which may fail.
  A vdev node of the configuration is the record of what each lookup the program makes on it
  returns; \<open>None\<close> stands for a lookup that fails. The extended statistics
  (\<open>ZPOOL_CONFIG_VDEV_STATS_EX\<close>) are a nested nvlist holding \<open>uint64\<close> arrays (the
  histograms) and \<open>uint64\<close> values (the queue depths), looked up by name.
\<close>

text \<open>The fields of \<open>vdev_stat_t\<close> that \<open>print_summary_stats\<close> reads.\<close>

record vdev_stat =
  vs_state :: "64 word"
  vs_aux :: "64 word"
  vs_alloc :: "64 word"
  vs_space :: "64 word"
  vs_bytes_READ :: "64 word"    \<comment> \<open>\<open>vs_bytes[ZIO_TYPE_READ]\<close>\<close>
  vs_bytes_WRITE :: "64 word"   \<comment> \<open>\<open>vs_bytes[ZIO_TYPE_WRITE]\<close>\<close>
  vs_ops_READ :: "64 word"      \<comment> \<open>\<open>vs_ops[ZIO_TYPE_READ]\<close>\<close>
  vs_ops_WRITE :: "64 word"     \<comment> \<open>\<open>vs_ops[ZIO_TYPE_WRITE]\<close>\<close>
  vs_read_errors :: "64 word"
  vs_write_errors :: "64 word"
  vs_checksum_errors :: "64 word"
  vs_fragmentation :: "64 word"

text \<open>
  The fields of \<open>pool_scan_stat_t\<close> that \<open>print_scan_status\<close> reads, and
  \<open>pss_pass_exam\<close>, the bytes examined in the current pass, which it does not read.
\<close>

record pool_scan_stat =
  pss_func :: "64 word"
  pss_state :: "64 word"
  pss_start_time :: "64 word"
  pss_end_time :: "64 word"
  pss_to_examine :: "64 word"
  pss_examined :: "64 word"
  pss_errors :: "64 word"
  pss_pass_exam :: "64 word"
  pss_pass_start :: "64 word"
  pss_pass_scrub_pause :: "64 word"
  pss_pass_scrub_spent_paused :: "64 word"
  pss_pass_issued :: "64 word"
  pss_issued :: "64 word"

record nvlist_ex =
  uint64_array :: "string \<rightharpoonup> 64 word list"
  uint64 :: "string \<rightharpoonup> 64 word"

datatype nvlist = Nvlist
  (CONFIG_TYPE: "string option")
  (CONFIG_ID: "64 word option")
  (CONFIG_PATH: "string option")
  (CONFIG_VDEV_STATS: "vdev_stat option")
  (CONFIG_VDEV_STATS_EX: "nvlist_ex option")
  (CONFIG_SCAN_STATS: "pool_scan_stat option")
  (CONFIG_CHILDREN: "nvlist list option")

text \<open>
  What the program takes from the ZFS headers and library, which are not part of the
  repository: the two enumeration sizes the scan encoder checks, whether the conditionally
  compiled parts are present, the library's \<open>zpool_state_to_name\<close>, and the clock.
  \<open>EZFS_SCRUB_PAUSED\<close> says whether the preprocessor finds a macro of that name
  (\<open>#ifdef\<close>); \<open>libzfs.h\<close> declares the name as an enumerator, which the preprocessor
  does not see, so the field is false for a build against the ZFS headers as they are. The
  last field is the value of the local variable \<open>pass_scanned\<close> of
  \<open>print_scan_status\<close>, which the function reads without ever assigning it.
\<close>

record env =
  DSS_NUM_STATES :: nat
  POOL_SCAN_FUNCS :: nat
  EZFS_SCRUB_PAUSED :: bool
  VDEV_TRIM_LAT_HISTO :: bool
  VDEV_IND_TRIM_HISTO :: bool
  zpool_state_to_name :: "64 word \<Rightarrow> 64 word \<Rightarrow> string"
  time_now :: "64 word"
  pass_scanned_indeterminate :: "64 word"

definition COMMAND_NAME :: string where "COMMAND_NAME = ''zpool_prometheus''"
definition POOL_MEASUREMENT :: string where "POOL_MEASUREMENT = ''zpool_stats''"
definition SCAN_MEASUREMENT :: string where "SCAN_MEASUREMENT = ''zpool_scan_stats''"
definition POOL_LATENCY_MEASUREMENT :: string where "POOL_LATENCY_MEASUREMENT = ''zpool_latency''"
definition POOL_QUEUE_MEASUREMENT :: string where "POOL_QUEUE_MEASUREMENT = ''zpool_vdev''"
definition MIN_LAT_INDEX :: nat where "MIN_LAT_INDEX = 10"
definition POOL_IO_SIZE_MEASUREMENT :: string where "POOL_IO_SIZE_MEASUREMENT = ''zpool_req''"
definition MIN_SIZE_INDEX :: nat where "MIN_SIZE_INDEX = 9"

section \<open>get_vdev_name, get_vdev_desc\<close>

definition get_vdev_name :: "nvlist \<Rightarrow> string option \<Rightarrow> string" where
  "get_vdev_name nvroot parent_name =
     (let vdev_type = (case CONFIG_TYPE nvroot of None \<Rightarrow> ''unknown'' | Some t \<Rightarrow> t);
          vdev_id = (case CONFIG_ID nvroot of None \<Rightarrow> (-1 :: 64 word) | Some i \<Rightarrow> i)
      in case parent_name of
           None \<Rightarrow> snprintf 256 vdev_type
         | Some parent \<Rightarrow>
             snprintf 256 (parent @ ''/'' @ vdev_type @ ''-'' @ decimal (unat vdev_id)))"

definition get_vdev_desc :: "nvlist \<Rightarrow> string option \<Rightarrow> string" where
  "get_vdev_desc nvroot parent_name =
     (let vdev_type = (case CONFIG_TYPE nvroot of None \<Rightarrow> ''unknown'' | Some t \<Rightarrow> t);
          vdev_id = (case CONFIG_ID nvroot of None \<Rightarrow> (-1 :: 64 word) | Some i \<Rightarrow> i);
          vdev_path = CONFIG_PATH nvroot;
          vdev_value = (case parent_name of
              None \<Rightarrow> snprintf 256 (''vdev=\"'' @ vdev_type @ ''\"'')
            | Some parent \<Rightarrow>
                snprintf 256 (''vdev=\"'' @ parent @ ''/'' @ vdev_type @ ''-''
                                @ decimal (unat vdev_id) @ ''\"''));
          vdev_path_value = (case vdev_path of
              None \<Rightarrow> []
            | Some path \<Rightarrow> snprintf 256 ('',path=\"'' @ path @ ''\"''))
      in snprintf 512 (vdev_value @ vdev_path_value))"

section \<open>print_vdev_latency_stats\<close>

text \<open>
  The lookup tables pair the name of an array in the extended statistics with the short name
  of the metric. The names are the texts of the \<open>ZPOOL_CONFIG_VDEV_*\<close> macros of the ZFS
  header \<open>sys/fs/zfs.h\<close>; the trim entries are compiled in only when the header has them.
\<close>

definition lat_type :: "env \<Rightarrow> (string \<times> string) list" where
  "lat_type h =
     [(''vdev_tot_r_lat_histo'', ''total_read''),
      (''vdev_tot_w_lat_histo'', ''total_write''),
      (''vdev_disk_r_lat_histo'', ''disk_read''),
      (''vdev_disk_w_lat_histo'', ''disk_write''),
      (''vdev_sync_r_lat_histo'', ''sync_read''),
      (''vdev_sync_w_lat_histo'', ''sync_write''),
      (''vdev_async_r_lat_histo'', ''async_read''),
      (''vdev_async_w_lat_histo'', ''async_write''),
      (''vdev_scrub_histo'', ''scrub'')]
     @ (if VDEV_TRIM_LAT_HISTO h then [(''vdev_trim_histo'', ''trim'')] else [])"

text \<open>
  The bound of bucket \<open>j\<close> is \<open>(float) (1ULL << j) * 1e-9\<close>, printed with \<open>%0.6f\<close>.
  The shift gives a power of two below \<open>2^64\<close>, which the conversion to \<open>float\<close>
  keeps as it is. The constant \<open>1e-9\<close> is a \<open>double\<close>: the double nearest to
  \<open>10^-9\<close> is \<open>4835703278458517 * 2^-82\<close> (bit pattern \<open>0x3E112E0BE826D695\<close>). The
  product is computed in \<open>double\<close> and is exact, one factor being a power of two, and
  \<open>printf\<close> prints the value rounded to six decimals, to the nearest and to even on a
  tie. \<open>le_seconds j\<close> is the number printed, in millionths. A shift by 64 or more is
  undefined in C; the model takes what the shift instruction of x86-64 does, which uses
  the count modulo 64.
\<close>

definition le_seconds :: "nat \<Rightarrow> nat" where
  "le_seconds j =
     (let x = 4835703278458517 * 2 ^ (j mod 64) * 1000000;
          q = x div 2 ^ 82;
          r = x mod 2 ^ 82
      in if 2 ^ 81 < r \<or> (r = 2 ^ 81 \<and> odd q) then q + 1 else q)"

text \<open>
  The loop \<open>for (int j = 0; j <= end; j++)\<close> over one array. \<open>sum\<close> is a \<open>uint64_t\<close>
  and wraps around. The latency encoder builds its metric names from the \<open>name\<close> field of
  the table. The label \<open>t\<close> is built in a buffer of \<open>2 * ZFS_MAX_DATASET_NAME_LEN\<close>
  bytes. The counter \<open>j\<close> is a natural number in the model; the \<open>int\<close> of the
  program reaches its limit only on an array of \<open>2^31\<close> entries or more.
\<close>

function latency_loop_j ::
  "string \<Rightarrow> string \<Rightarrow> string \<Rightarrow> 64 word list \<Rightarrow> nat \<Rightarrow> nat \<Rightarrow> 64 word \<Rightarrow> pstate \<Rightarrow> pstate" where
  "latency_loop_j name pool_name vdev_desc lat_array end j sm st =
     (if j \<le> end then
        let p = POOL_LATENCY_MEASUREMENT;
            sm = sm + lat_array ! j;
            s = snprintf (2 * ZFS_MAX_DATASET_NAME_LEN) (name @ ''_seconds_bucket'');
            st = (if MIN_LAT_INDEX \<le> j \<and> j < end then
                    let t = snprintf_le (2 * ZFS_MAX_DATASET_NAME_LEN)
                              (''name=\"'' @ pool_name @ ''\",'' @ vdev_desc) (LeSeconds (le_seconds j))
                    in print_prom_u64 p s (Some t) sm None None st
                  else st);
            st = (if j = end then
                    let t = snprintf_le (2 * ZFS_MAX_DATASET_NAME_LEN)
                              (''name=\"'' @ pool_name @ ''\",'' @ vdev_desc) LeInf;
                        st = print_prom_u64 p s (Some t) sm None None st;
                        s = snprintf (2 * ZFS_MAX_DATASET_NAME_LEN) (name @ ''_seconds_sum'');
                        t = L (snprintf (2 * ZFS_MAX_DATASET_NAME_LEN)
                                 (''name=\"'' @ pool_name @ ''\",'' @ vdev_desc));
                        st = print_prom_u64 p s (Some t) 0 None None st;
                        s = snprintf (2 * ZFS_MAX_DATASET_NAME_LEN) (name @ ''_seconds_count'')
                    in print_prom_u64 p s (Some t) sm None None st
                  else st)
        in latency_loop_j name pool_name vdev_desc lat_array end (j + 1) sm st
      else st)"
  by pat_completeness auto
termination
  by (relation "measure (\<lambda>(name, pool_name, vdev_desc, lat_array, end, j, sm, st). Suc end - j)") auto

declare latency_loop_j.simps [simp del]

text \<open>
  The loop \<open>for (int i = 0; lat_type[i].name; i++)\<close> over the table. An array of length 0
  makes \<open>end = c - 1\<close> wrap around and the first iteration read past the array: the
  behaviour of the C program is undefined there, which is the result \<open>None\<close>.
\<close>

fun latency_loop_i ::
  "(string \<times> string) list \<Rightarrow> nvlist_ex \<Rightarrow> string \<Rightarrow> string \<Rightarrow> pstate \<Rightarrow> (int \<times> pstate) option" where
  "latency_loop_i [] nv_ex pool_name vdev_desc st = Some (0, st)"
| "latency_loop_i ((name, short_name) # rest) nv_ex pool_name vdev_desc st =
     (case uint64_array nv_ex name of
        None \<Rightarrow> Some (3, fprintf_stderr (''error: can't get '' @ name) st)
      | Some lat_array \<Rightarrow>
          let c = length lat_array in
          if c = 0 then None
          else
            let end = c - 1;
                metric_name = snprintf (2 * ZFS_MAX_DATASET_NAME_LEN)
                                (POOL_LATENCY_MEASUREMENT @ ''_'' @ name @ ''_seconds'');
                st = print_help_type metric_name (Some ''latency distribution'')
                       (Some ''histogram'') st;
                st = latency_loop_j name pool_name vdev_desc lat_array end 0 0 st
            in latency_loop_i rest nv_ex pool_name vdev_desc st)"

definition print_vdev_latency_stats ::
  "env \<Rightarrow> nvlist \<Rightarrow> string \<Rightarrow> string option \<Rightarrow> pstate \<Rightarrow> (int \<times> pstate) option" where
  "print_vdev_latency_stats h nvroot pool_name parent_name st =
     (case CONFIG_VDEV_STATS_EX nvroot of
        None \<Rightarrow> Some (6, st)
      | Some nv_ex \<Rightarrow>
          let vdev_desc = get_vdev_desc nvroot parent_name
          in latency_loop_i (lat_type h) nv_ex pool_name vdev_desc st)"

section \<open>print_vdev_size_stats\<close>

definition size_type :: "env \<Rightarrow> (string \<times> string) list" where
  "size_type h =
     [(''vdev_sync_ind_r_histo'', ''sync_read_ind''),
      (''vdev_sync_ind_w_histo'', ''sync_write_ind''),
      (''vdev_async_ind_r_histo'', ''async_read_ind''),
      (''vdev_async_ind_w_histo'', ''async_write_ind''),
      (''vdev_ind_scrub_histo'', ''scrub_read_ind''),
      (''vdev_sync_agg_r_histo'', ''sync_read_agg''),
      (''vdev_sync_agg_w_histo'', ''sync_write_agg''),
      (''vdev_async_agg_r_histo'', ''async_read_agg''),
      (''vdev_async_agg_w_histo'', ''async_write_agg''),
      (''vdev_agg_scrub_histo'', ''scrub_read_agg'')]
     @ (if VDEV_IND_TRIM_HISTO h
        then [(''vdev_ind_trim_histo'', ''trim_write_ind''),
              (''vdev_agg_trim_histo'', ''trim_write_agg'')]
        else [])"

text \<open>
  The bound of bucket \<open>j\<close> is the \<open>int\<close> \<open>1 << j\<close>, printed with \<open>%d\<close>. From
  \<open>j = 31\<close> the shift overflows the \<open>int\<close>, which is undefined in C; the model takes
  what the shift instruction of x86-64 does: the count is used modulo 32 and the result is
  the 32-bit pattern read as a signed number, so the bounds printed for the indices 31, 32
  and 33 are -2147483648, 1 and 2.
\<close>

definition le_bytes :: "nat \<Rightarrow> int" where
  "le_bytes j = sint (push_bit (j mod 32) (1 :: 32 word))"

text \<open>The size encoder builds its metric names from the \<open>short_name\<close> field of the table.\<close>

function size_loop_j ::
  "string \<Rightarrow> string \<Rightarrow> string \<Rightarrow> 64 word list \<Rightarrow> nat \<Rightarrow> nat \<Rightarrow> 64 word \<Rightarrow> pstate \<Rightarrow> pstate" where
  "size_loop_j short_name pool_name vdev_desc size_array end j sm st =
     (if j \<le> end then
        let p = POOL_IO_SIZE_MEASUREMENT;
            sm = sm + size_array ! j;
            s = snprintf (2 * ZFS_MAX_DATASET_NAME_LEN) (short_name @ ''_bytes_bucket'');
            st = (if MIN_SIZE_INDEX \<le> j \<and> j \<le> end then
                    let t = snprintf_le (2 * ZFS_MAX_DATASET_NAME_LEN)
                              (''name=\"'' @ pool_name @ ''\",'' @ vdev_desc) (LeBytes (le_bytes j))
                    in print_prom_u64 p s (Some t) sm None None st
                  else st);
            st = (if j = end then
                    let t = snprintf_le (2 * ZFS_MAX_DATASET_NAME_LEN)
                              (''name=\"'' @ pool_name @ ''\",'' @ vdev_desc) LeInf;
                        st = print_prom_u64 p s (Some t) sm None None st;
                        s = snprintf (2 * ZFS_MAX_DATASET_NAME_LEN) (short_name @ ''_bytes_sum'');
                        t = L (snprintf (2 * ZFS_MAX_DATASET_NAME_LEN)
                                 (''name=\"'' @ pool_name @ ''\",'' @ vdev_desc));
                        st = print_prom_u64 p s (Some t) 0 None None st;
                        s = snprintf (2 * ZFS_MAX_DATASET_NAME_LEN) (short_name @ ''_bytes_count'')
                    in print_prom_u64 p s (Some t) sm None None st
                  else st)
        in size_loop_j short_name pool_name vdev_desc size_array end (j + 1) sm st
      else st)"
  by pat_completeness auto
termination
  by (relation "measure (\<lambda>(short_name, pool_name, vdev_desc, size_array, end, j, sm, st). Suc end - j)") auto

declare size_loop_j.simps [simp del]

fun size_loop_i ::
  "(string \<times> string) list \<Rightarrow> nvlist_ex \<Rightarrow> string \<Rightarrow> string \<Rightarrow> pstate \<Rightarrow> (int \<times> pstate) option" where
  "size_loop_i [] nv_ex pool_name vdev_desc st = Some (0, st)"
| "size_loop_i ((name, short_name) # rest) nv_ex pool_name vdev_desc st =
     (case uint64_array nv_ex name of
        None \<Rightarrow> Some (3, fprintf_stderr (''error: can't get '' @ name) st)
      | Some size_array \<Rightarrow>
          let c = length size_array in
          if c = 0 then None
          else
            let end = c - 1;
                metric_name = snprintf (2 * ZFS_MAX_DATASET_NAME_LEN)
                                (POOL_IO_SIZE_MEASUREMENT @ ''_'' @ short_name @ ''_bytes'');
                st = print_help_type metric_name (Some ''I/O request size distribution'')
                       (Some ''histogram'') st;
                st = size_loop_j short_name pool_name vdev_desc size_array end 0 0 st
            in size_loop_i rest nv_ex pool_name vdev_desc st)"

definition print_vdev_size_stats ::
  "env \<Rightarrow> nvlist \<Rightarrow> string \<Rightarrow> string option \<Rightarrow> pstate \<Rightarrow> (int \<times> pstate) option" where
  "print_vdev_size_stats h nvroot pool_name parent_name st =
     (case CONFIG_VDEV_STATS_EX nvroot of
        None \<Rightarrow> Some (6, st)
      | Some nv_ex \<Rightarrow>
          let vdev_desc = get_vdev_desc nvroot parent_name
          in size_loop_i (size_type h) nv_ex pool_name vdev_desc st)"

section \<open>print_queue_stats\<close>

definition queue_type :: "(string \<times> string) list" where
  "queue_type =
     [(''vdev_sync_r_active_queue'', ''sync_r_active_queue''),
      (''vdev_sync_w_active_queue'', ''sync_w_active_queue''),
      (''vdev_async_r_active_queue'', ''async_r_active_queue''),
      (''vdev_async_w_active_queue'', ''async_w_active_queue''),
      (''vdev_async_scrub_active_queue'', ''async_scrub_active_queue''),
      (''vdev_sync_r_pend_queue'', ''sync_r_pend_queue''),
      (''vdev_sync_w_pend_queue'', ''sync_w_pend_queue''),
      (''vdev_async_r_pend_queue'', ''async_r_pend_queue''),
      (''vdev_async_w_pend_queue'', ''async_w_pend_queue''),
      (''vdev_async_scrub_pend_queue'', ''async_scrub_pend_queue'')]"

fun queue_loop_i ::
  "(string \<times> string) list \<Rightarrow> nvlist_ex \<Rightarrow> string \<Rightarrow> pstate \<Rightarrow> int \<times> pstate" where
  "queue_loop_i [] nv_ex s st = (0, st)"
| "queue_loop_i ((name, short_name) # rest) nv_ex s st =
     (case uint64 nv_ex name of
        None \<Rightarrow> (3, fprintf_stderr (''error: can't get '' @ name) st)
      | Some val \<Rightarrow>
          queue_loop_i rest nv_ex s
            (print_prom_u64 POOL_QUEUE_MEASUREMENT short_name (Some (L s)) val
               (Some ''queue depth'') (Some ''gauge'') st))"

definition print_queue_stats ::
  "nvlist \<Rightarrow> string \<Rightarrow> string option \<Rightarrow> pstate \<Rightarrow> (int \<times> pstate) option" where
  "print_queue_stats nvroot pool_name parent_name st =
     (case CONFIG_VDEV_STATS_EX nvroot of
        None \<Rightarrow> Some (6, st)
      | Some nv_ex \<Rightarrow>
          let s = snprintf (2 * ZFS_MAX_DATASET_NAME_LEN)
                    (''name=\"'' @ pool_name @ ''\",'' @ get_vdev_desc nvroot parent_name)
          in Some (queue_loop_i queue_type nv_ex s st))"

section \<open>print_summary_stats\<close>

definition print_summary_stats ::
  "env \<Rightarrow> nvlist \<Rightarrow> string \<Rightarrow> string option \<Rightarrow> pstate \<Rightarrow> (int \<times> pstate) option" where
  "print_summary_stats h nvroot pool_name parent_name st =
     (let p = POOL_MEASUREMENT;
          vdev_desc = get_vdev_desc nvroot parent_name
      in case CONFIG_VDEV_STATS nvroot of
           None \<Rightarrow> Some (0, st)
         | Some vs \<Rightarrow>
            let l = Some (L (snprintf (2 * ZFS_MAX_DATASET_NAME_LEN)
                      (''name=\"'' @ pool_name @ ''\",state=\"''
                         @ zpool_state_to_name h (vs_state vs) (vs_aux vs) @ ''\",'' @ vdev_desc)));
                st = print_prom_u64 p ''state'' l (vs_state vs)
                       (Some ''current state, see zfs.h'') (Some ''gauge'') st;
                st = print_prom_u64 p ''aux_state'' l (vs_aux vs)
                       (Some ''auxiliary state, see zfs.h'') (Some ''gauge'') st;
                st = print_prom_u64 p ''alloc_bytes'' l (vs_alloc vs)
                       (Some ''allocated size'') (Some ''gauge'') st;
                st = print_prom_u64 p ''free_bytes'' l (vs_space vs - vs_alloc vs)
                       (Some ''free space'') (Some ''gauge'') st;
                st = print_prom_u64 p ''size_bytes'' l (vs_space vs)
                       (Some ''pool size'') (Some ''gauge'') st;
                st = print_prom_u64 p ''read_bytes'' l (vs_bytes_READ vs)
                       (Some ''read bytes'') (Some ''counter'') st;
                st = print_prom_u64 p ''read_errors'' l (vs_read_errors vs)
                       (Some ''read errors'') (Some ''counter'') st;
                st = print_prom_u64 p ''read_ops'' l (vs_ops_READ vs)
                       (Some ''read ops'') (Some ''counter'') st;
                st = print_prom_u64 p ''write_bytes'' l (vs_bytes_WRITE vs)
                       (Some ''write bytes'') (Some ''counter'') st;
                st = print_prom_u64 p ''write_errors'' l (vs_write_errors vs)
                       (Some ''write errors'') (Some ''counter'') st;
                st = print_prom_u64 p ''write_ops'' l (vs_ops_WRITE vs)
                       (Some ''write ops'') (Some ''counter'') st;
                st = print_prom_u64 p ''cksum_errors'' l (vs_checksum_errors vs)
                       (Some ''checksum errors'') (Some ''counter'') st;
                st = print_prom_u64 p ''fragmentation_ratio'' l (vs_fragmentation vs div 100)
                       (Some ''free space fragmentation metric'') (Some ''gauge'') st
            in Some (0, st))"

section \<open>print_scan_status\<close>

text \<open>
  \<open>DSS_SCANNING\<close> is the second value of the header's enumeration of scan states, whose
  order the table of state names follows. The table has \<open>DSS_NUM_STATES\<close> entries, the
  four names and null pointers after them; reading it at any other index is outside the
  array, which is the result \<open>None\<close>.
\<close>

definition DSS_SCANNING :: "64 word" where
  "DSS_SCANNING = 1"

definition UINT64_MAX :: "64 word" where
  "UINT64_MAX = - 1"

definition state :: "env \<Rightarrow> nat \<Rightarrow> string option" where
  "state h i =
     (if i < DSS_NUM_STATES h
      then Some (if i < 4 then [''none'', ''scanning'', ''finished'', ''canceled''] ! i
                 else ''(null)'')
      else None)"

text \<open>
  The function also computes a name \<open>func\<close> for the scan function from \<open>pss_func\<close>, which
  it never prints; the model leaves it out. The statement
  \<open>issue_pct_done = 100.0 * issued / total\<close> follows the \<open>if\<close> without braces, so only
  the assignment to \<open>scan_pct_done\<close> is conditional. \<open>elapsed\<close> is an \<open>int64_t\<close>
  assigned from unsigned 64-bit arithmetic and compared with 0 as a signed value; the
  divisions by it are unsigned.
\<close>

definition print_scan_status ::
  "env \<Rightarrow> nvlist \<Rightarrow> string \<Rightarrow> pstate \<Rightarrow> (int \<times> pstate) option" where
  "print_scan_status h nvroot pool_name st =
     (case CONFIG_SCAN_STATS nvroot of
        None \<Rightarrow> Some (0, st)
      | Some ps \<Rightarrow>
          if DSS_NUM_STATES h \<le> unat (pss_state ps) \<or> POOL_SCAN_FUNCS h \<le> unat (pss_func ps)
          then Some (0, st)
          else
            let p = SCAN_MEASUREMENT;
                pass_scanned = pass_scanned_indeterminate h;
                scanned = pss_examined ps;
                issued = pss_issued ps;
                pass_issued = pss_pass_issued ps;
                total = pss_to_examine ps;
                scan_pct_done = (if 0 < pss_to_examine ps
                                 then DDiv (DMul (DLit 100) (DOfU64 scanned)) (DOfU64 total)
                                 else DLit 0);
                issue_pct_done = DDiv (DMul (DLit 100) (DOfU64 issued)) (DOfU64 total);
                paused_ts = (if EZFS_SCRUB_PAUSED h then pss_pass_scrub_pause ps else 0);
                paused_time = (if EZFS_SCRUB_PAUSED h then pss_pass_scrub_spent_paused ps else 0);
                (elapsed, scan_rate, issue_rate, remaining_time, to_issue) =
                  (if pss_state ps = DSS_SCANNING then
                     let elapsed = time_now h - pss_pass_start ps - paused_time;
                         elapsed = (if 0 < sint elapsed then elapsed else 1);
                         scan_rate = pass_scanned div elapsed;
                         issue_rate = pass_issued div elapsed;
                         remaining_time = (if issue_rate \<noteq> 0 \<and> issued \<le> total
                                           then (total - issued) div issue_rate
                                           else UINT64_MAX);
                         to_issue = total - issued
                     in (elapsed, scan_rate, issue_rate, remaining_time, to_issue)
                   else
                     let elapsed = pss_end_time ps - pss_pass_start ps - paused_time;
                         elapsed = (if 0 < sint elapsed then elapsed else 1)
                     in (elapsed, 0, 0, 0, 0));
                scan_rate = (if scan_rate \<noteq> 0 then scan_rate else 1);
                issue_rate = (if issue_rate \<noteq> 0 then issue_rate else 1)
            in case state h (unat (pss_state ps)) of
                 None \<Rightarrow> None
               | Some state_name \<Rightarrow>
                  let l = Some (L (snprintf (2 * ZFS_MAX_DATASET_NAME_LEN)
                            (''name=\"'' @ pool_name @ ''\",state=\"'' @ state_name @ ''\"'')));
                      st = print_prom_u64 p ''start_ts_seconds'' l (pss_start_time ps)
                             (Some ''scan start timestamp (epoch)'') (Some ''gauge'') st;
                      st = print_prom_u64 p ''end_ts_seconds'' l (pss_end_time ps)
                             (Some ''scan end timestamp (epoch)'') (Some ''gauge'') st;
                      st = print_prom_u64 p ''pause_ts_seconds'' l paused_ts
                             (Some ''scan paused at timestamp (epoch)'') (Some ''gauge'') st;
                      st = print_prom_u64 p ''paused_seconds'' l paused_time
                             (Some ''scan pause duration'') (Some ''gauge'') st;
                      st = print_prom_u64 p ''remaining_time_seconds'' l remaining_time
                             (Some ''estimate of examination time remaining'') (Some ''gauge'') st;
                      st = print_prom_u64 p ''errors'' l (pss_errors ps)
                             (Some ''errors detected during scan)'') (Some ''counter'') st;
                      st = print_prom_u64 p ''examined_bytes'' l scanned
                             (Some ''bytes examined'') (Some ''counter'') st;
                      st = print_prom_u64 p ''issued_bytes'' l issued
                             (Some ''bytes issued'') (Some ''counter'') st;
                      st = print_prom_u64 p ''examined_pass_bytes'' l scanned
                             (Some ''bytes examined for this pass'') (Some ''counter'') st;
                      st = print_prom_u64 p ''issued_pass_bytes'' l pass_issued
                             (Some ''bytes issued for this pass'') (Some ''counter'') st;
                      st = print_prom_d p ''percent_examined_done_ratio'' l scan_pct_done
                             (Some ''percent of bytes examined'') (Some ''gauge'') st;
                      st = print_prom_d p ''percent_issued_done_ratio'' l issue_pct_done
                             (Some ''percent of bytes issued'') (Some ''gauge'') st;
                      st = print_prom_u64 p ''examined_bytes_per_second'' l scan_rate
                             (Some ''examination rate over current pass'') (Some ''gauge'') st;
                      st = print_prom_u64 p ''issued_bytes_per_second'' l issue_rate
                             (Some ''issue rate over current pass'') (Some ''gauge'') st;
                      st = print_prom_u64 p ''to_examine_bytes'' l total
                             (Some ''total bytes to scan'') (Some ''gauge'') st;
                      st = print_prom_u64 p ''to_issue_bytes'' l to_issue
                             (Some ''bytes remaining to issue'') (Some ''gauge'') st
                  in Some (0, st))"

section \<open>print_recursive_stats, print_stats, main\<close>

text \<open>
  The recursive call on a child is a statement of its own: the value it returns is dropped.
  Only undefined behaviour in a child (\<open>None\<close>) ends the walk.
\<close>

function print_recursive_stats ::
  "(nvlist \<Rightarrow> string \<Rightarrow> string option \<Rightarrow> pstate \<Rightarrow> (int \<times> pstate) option)
     \<Rightarrow> nvlist \<Rightarrow> string \<Rightarrow> string option \<Rightarrow> bool \<Rightarrow> pstate \<Rightarrow> (int \<times> pstate) option" where
  "print_recursive_stats func nvroot pool_name parent_name descend st =
     (case func nvroot pool_name parent_name st of
        None \<Rightarrow> None
      | Some (err, st) \<Rightarrow>
          if err \<noteq> 0 then Some (err, st)
          else if descend then
            (case CONFIG_CHILDREN nvroot of
               None \<Rightarrow> Some (0, st)
             | Some child \<Rightarrow>
                 let vdev_name = snprintf 256 (get_vdev_name nvroot parent_name)
                 in map_option (Pair 0)
                      (fold (\<lambda>c r. case r of
                                 None \<Rightarrow> None
                               | Some st \<Rightarrow>
                                   map_option snd
                                     (print_recursive_stats func c pool_name (Some vdev_name)
                                        descend st))
                         child (Some st)))
          else Some (0, st))"
  by pat_completeness auto
termination
proof (relation "measure (\<lambda>(func, nvroot, pool_name, parent_name, descend, st). size nvroot)")
  show "wf (measure (\<lambda>(func, nvroot, pool_name, parent_name, descend, st). size nvroot))"
    by simp
next
  fix func :: "nvlist \<Rightarrow> string \<Rightarrow> string option \<Rightarrow> pstate \<Rightarrow> (int \<times> pstate) option"
    and nvroot pool_name parent_name descend and st :: pstate and child c
    and x :: "int \<times> pstate" and err st1 vdev_name and r :: "pstate option" and st2 :: pstate
  assume "CONFIG_CHILDREN nvroot = Some child" and "c \<in> set child"
  then have "size c < size nvroot"
    by (cases nvroot) (auto dest: size_list_estimation' [where f = size and y = "size c", OF _ order_refl])
  then show "((func, c, pool_name, Some vdev_name, descend, st2),
              (func, nvroot, pool_name, parent_name, descend, st)) \<in>
             measure (\<lambda>(func, nvroot, pool_name, parent_name, descend, st). size nvroot)"
    by simp
qed

declare print_recursive_stats.simps [simp del]

text \<open>
  A pool handle, as \<open>print_stats\<close> uses it: the pool's name, what \<open>zpool_refresh_stats\<close>
  returns for it, and the vdev tree of its configuration (\<open>None\<close> when the lookup of
  \<open>ZPOOL_CONFIG_VDEV_TREE\<close> fails).
\<close>

record zpool_handle =
  zpool_name :: string
  zpool_refresh_stats :: int
  CONFIG_VDEV_TREE :: "nvlist option"

text \<open>\<open>if (err == 0) err = ...\<close>: the next printer runs only after a zero result.\<close>

definition if_err_0 ::
  "(int \<times> pstate) option \<Rightarrow> (pstate \<Rightarrow> (int \<times> pstate) option) \<Rightarrow> (int \<times> pstate) option" where
  "if_err_0 r f = (case r of None \<Rightarrow> None
                   | Some (err, st) \<Rightarrow> if err = 0 then f st else Some (err, st))"

definition print_stats ::
  "env \<Rightarrow> zpool_handle \<Rightarrow> string option \<Rightarrow> pstate \<Rightarrow> (int \<times> pstate) option" where
  "print_stats h zhp data st =
     (if (case data of None \<Rightarrow> False
          | Some d \<Rightarrow> take ZFS_MAX_DATASET_NAME_LEN d \<noteq> take ZFS_MAX_DATASET_NAME_LEN (zpool_name zhp))
      then Some (0, st)
      else if zpool_refresh_stats zhp \<noteq> 0 then Some (1, st)
      else case CONFIG_VDEV_TREE zhp of
        None \<Rightarrow> Some (2, st)
      | Some nvroot \<Rightarrow>
          (case CONFIG_VDEV_STATS nvroot of
             None \<Rightarrow> Some (3, st)
           | Some vs \<Rightarrow>
               let pool_name = escape_string (zpool_name zhp);
                   st = printf (Comment (''### '' @ COMMAND_NAME @ '' stats for '' @ pool_name)) st;
                   r = print_recursive_stats (print_summary_stats h) nvroot pool_name None True st;
                   r = if_err_0 r
                         (print_recursive_stats (print_vdev_latency_stats h) nvroot pool_name None True);
                   r = if_err_0 r
                         (print_recursive_stats (print_vdev_size_stats h) nvroot pool_name None True);
                   r = if_err_0 r
                         (print_recursive_stats print_queue_stats nvroot pool_name None False);
                   r = if_err_0 r (print_scan_status h nvroot pool_name)
               in map_option (\<lambda>(err, st). (0, st)) r))"

text \<open>
  \<open>zpool_iter\<close> belongs to libzfs: it calls the function on every pool in turn and stops
  at the first call that returns non-zero, returning that value.
\<close>

fun zpool_iter ::
  "(zpool_handle \<Rightarrow> pstate \<Rightarrow> (int \<times> pstate) option) \<Rightarrow> zpool_handle list \<Rightarrow> pstate
     \<Rightarrow> (int \<times> pstate) option" where
  "zpool_iter func [] st = Some (0, st)"
| "zpool_iter func (zhp # rest) st =
     (case func zhp st of
        None \<Rightarrow> None
      | Some (ret, st) \<Rightarrow> if ret \<noteq> 0 then Some (ret, st) else zpool_iter func rest st)"

text \<open>
  \<open>main\<close>: the arguments are the environment, whether \<open>libzfs_init\<close> succeeds, \<open>argv\<close>
  and the imported pools. The result is the exit code with the final state. Memory
  allocation is taken to succeed.
\<close>

definition main ::
  "env \<Rightarrow> bool \<Rightarrow> string list \<Rightarrow> zpool_handle list \<Rightarrow> (int \<times> pstate) option" where
  "main h libzfs_init argv pools =
     (if \<not> libzfs_init then
        Some (1, fprintf_stderr
          ''error: cannot initialize libzfs. Is the zfs module loaded or zrepl running?''
          init_state)
      else if 1 < length argv then
        zpool_iter (\<lambda>zhp. print_stats h zhp (Some (argv ! 1))) pools init_state
      else
        zpool_iter (\<lambda>zhp. print_stats h zhp None) pools init_state)"

section \<open>Reading the output\<close>

text \<open>The number printed on a sample line, read back from the line.\<close>

fun sample_value :: "line \<Rightarrow> nat option" where
  "sample_value (SampleU64 _ _ w) = Some (unat w)"
| "sample_value _ = None"

text \<open>
  The histogram bucket lines of a piece of output, in the order of their emission: the
  \<open>le\<close> bound of each with the number printed on it.
\<close>

fun bucket :: "line \<Rightarrow> (le_bound \<times> nat) option" where
  "bucket (SampleU64 _ (Some (LE _ b)) w) = Some (b, unat w)"
| "bucket _ = None"

definition buckets :: "line list \<Rightarrow> (le_bound \<times> nat) list" where
  "buckets ls = List.map_filter bucket ls"

definition bucket_values :: "line list \<Rightarrow> nat list" where
  "bucket_values ls = map snd (buckets ls)"

definition inf_values :: "line list \<Rightarrow> nat list" where
  "inf_values ls = map snd (filter (\<lambda>b. fst b = LeInf) (buckets ls))"

text \<open>
  The order of the bounds: that of the numbers printed, among the bounds of one unit, with
  \<open>+Inf\<close> above all.
\<close>

fun le_less :: "le_bound \<Rightarrow> le_bound \<Rightarrow> bool" where
  "le_less (LeSeconds i) (LeSeconds j) = (i < j)"
| "le_less (LeBytes i) (LeBytes j) = (i < j)"
| "le_less (LeSeconds i) LeInf = True"
| "le_less (LeBytes i) LeInf = True"
| "le_less _ _ = False"

text \<open>The lines a printing step adds to the output.\<close>

definition emitted :: "pstate \<Rightarrow> pstate \<Rightarrow> line list" where
  "emitted st st' = drop (length (out st)) (out st')"

text \<open>The lines one iteration of each histogram loop prints, given the running sum.\<close>

definition latency_lines :: "string \<Rightarrow> string \<Rightarrow> string \<Rightarrow> nat \<Rightarrow> nat \<Rightarrow> 64 word \<Rightarrow> line list" where
  "latency_lines name pool_name vdev_desc end j sm =
     (if MIN_LAT_INDEX \<le> j \<and> j < end
      then [SampleU64 (snprintf 200 (POOL_LATENCY_MEASUREMENT @ ''_'' @ snprintf 512 (name @ ''_seconds_bucket'')))
              (Some (snprintf_le 512 (''name=\"'' @ pool_name @ ''\",'' @ vdev_desc) (LeSeconds (le_seconds j))))
              (sm AND mask 52)]
      else [])
     @ (if j = end
        then [SampleU64 (snprintf 200 (POOL_LATENCY_MEASUREMENT @ ''_'' @ snprintf 512 (name @ ''_seconds_bucket'')))
                (Some (snprintf_le 512 (''name=\"'' @ pool_name @ ''\",'' @ vdev_desc) LeInf)) (sm AND mask 52),
              SampleU64 (snprintf 200 (POOL_LATENCY_MEASUREMENT @ ''_'' @ snprintf 512 (name @ ''_seconds_sum'')))
                (Some (L (snprintf 512 (''name=\"'' @ pool_name @ ''\",'' @ vdev_desc)))) 0,
              SampleU64 (snprintf 200 (POOL_LATENCY_MEASUREMENT @ ''_'' @ snprintf 512 (name @ ''_seconds_count'')))
                (Some (L (snprintf 512 (''name=\"'' @ pool_name @ ''\",'' @ vdev_desc)))) (sm AND mask 52)]
        else [])"

definition size_lines :: "string \<Rightarrow> string \<Rightarrow> string \<Rightarrow> nat \<Rightarrow> nat \<Rightarrow> 64 word \<Rightarrow> line list" where
  "size_lines short_name pool_name vdev_desc end j sm =
     (if MIN_SIZE_INDEX \<le> j \<and> j \<le> end
      then [SampleU64 (snprintf 200 (POOL_IO_SIZE_MEASUREMENT @ ''_'' @ snprintf 512 (short_name @ ''_bytes_bucket'')))
              (Some (snprintf_le 512 (''name=\"'' @ pool_name @ ''\",'' @ vdev_desc) (LeBytes (le_bytes j))))
              (sm AND mask 52)]
      else [])
     @ (if j = end
        then [SampleU64 (snprintf 200 (POOL_IO_SIZE_MEASUREMENT @ ''_'' @ snprintf 512 (short_name @ ''_bytes_bucket'')))
                (Some (snprintf_le 512 (''name=\"'' @ pool_name @ ''\",'' @ vdev_desc) LeInf)) (sm AND mask 52),
              SampleU64 (snprintf 200 (POOL_IO_SIZE_MEASUREMENT @ ''_'' @ snprintf 512 (short_name @ ''_bytes_sum'')))
                (Some (L (snprintf 512 (''name=\"'' @ pool_name @ ''\",'' @ vdev_desc)))) 0,
              SampleU64 (snprintf 200 (POOL_IO_SIZE_MEASUREMENT @ ''_'' @ snprintf 512 (short_name @ ''_bytes_count'')))
                (Some (L (snprintf 512 (''name=\"'' @ pool_name @ ''\",'' @ vdev_desc)))) (sm AND mask 52)]
        else [])"

text \<open>The last three lines of a piece of output.\<close>

definition last3 :: "line list \<Rightarrow> line list" where
  "last3 ls = drop (length ls - 3) ls"

text \<open>The numbers printed on the sample lines of one metric name, in order.\<close>

fun u64_sample :: "string \<Rightarrow> line \<Rightarrow> nat option" where
  "u64_sample nm (SampleU64 n _ w) = (if n = nm then Some (unat w) else None)"
| "u64_sample nm _ = None"

definition u64_samples :: "string \<Rightarrow> line list \<Rightarrow> nat list" where
  "u64_samples nm ls = List.map_filter (u64_sample nm) ls"

fun d_sample :: "string \<Rightarrow> line \<Rightarrow> dbl option" where
  "d_sample nm (SampleD n _ d) = (if n = nm then Some d else None)"
| "d_sample nm _ = None"

definition d_samples :: "string \<Rightarrow> line list \<Rightarrow> dbl list" where
  "d_samples nm ls = List.map_filter (d_sample nm) ls"

text \<open>
  The value of a double expression in exact arithmetic; \<open>None\<close> when it divides by zero,
  where the C program gets an infinity or a NaN. Rounding is not modelled.
\<close>

fun dval :: "dbl \<Rightarrow> rat option" where
  "dval (DLit n) = Some (of_nat n)"
| "dval (DOfU64 w) = Some (of_nat (unat w))"
| "dval (DMul a b) =
     (case (dval a, dval b) of (Some x, Some y) \<Rightarrow> Some (x * y) | _ \<Rightarrow> None)"
| "dval (DDiv a b) =
     (case (dval a, dval b) of
        (Some x, Some y) \<Rightarrow> if y = 0 then None else Some (x / y)
      | _ \<Rightarrow> None)"

text \<open>The return code and the output of a printing function's result.\<close>

definition returned :: "(int \<times> pstate) option \<Rightarrow> int option" where
  "returned r = map_option fst r"

definition printed :: "(int \<times> pstate) option \<Rightarrow> line list" where
  "printed r = (case r of None \<Rightarrow> [] | Some (rc, st) \<Rightarrow> out st)"

text \<open>
  Whether a string has a double quote that no backslash precedes, or a backslash that
  escapes nothing: a backslash consumes the quote or backslash after it.
\<close>

fun unescaped :: "string \<Rightarrow> bool" where
  "unescaped [] = False"
| "unescaped [c] = (c = CHR ''\"'' \<or> c = CHR 0x5C)"
| "unescaped (c # d # s) =
     (if c = CHR 0x5C then (d \<noteq> CHR ''\"'' \<and> d \<noteq> CHR 0x5C) \<or> unescaped s
      else c = CHR ''\"'' \<or> unescaped (d # s))"

text \<open>The labels of the sample lines of a piece of output.\<close>

fun sample_label :: "line \<Rightarrow> label option" where
  "sample_label (SampleU64 _ l _) = l"
| "sample_label (SampleD _ l _) = l"
| "sample_label _ = None"

definition sample_labels :: "line list \<Rightarrow> label list" where
  "sample_labels ls = List.map_filter sample_label ls"

text \<open>The number of HELP lines and of TYPE lines for a metric name in a piece of output.\<close>

fun is_help :: "string \<Rightarrow> line \<Rightarrow> bool" where
  "is_help n (Help m _) = (m = n)"
| "is_help n _ = False"

fun is_type :: "string \<Rightarrow> line \<Rightarrow> bool" where
  "is_type n (Type m _) = (m = n)"
| "is_type n _ = False"

definition help_count :: "string \<Rightarrow> line list \<Rightarrow> nat" where
  "help_count n ls = length (filter (is_help n) ls)"

definition type_count :: "string \<Rightarrow> line list \<Rightarrow> nat" where
  "type_count n ls = length (filter (is_type n) ls)"

text \<open>
  The invariant of the registry: no name has more than one HELP line or more than one TYPE
  line, and a name that is not in \<open>metric_names\<close> has none. A step of the program extends
  the output and keeps the invariant.
\<close>

definition declared_once :: "pstate \<Rightarrow> bool" where
  "declared_once st \<longleftrightarrow>
     (\<forall>n. help_count n (out st) \<le> 1 \<and> type_count n (out st) \<le> 1
        \<and> (n \<notin> set (metric_names st) \<longrightarrow> help_count n (out st) = 0 \<and> type_count n (out st) = 0))"

definition ext :: "pstate \<Rightarrow> pstate \<Rightarrow> bool" where
  "ext st st' \<longleftrightarrow> (\<exists>ls. out st' = out st @ ls) \<and> (declared_once st \<longrightarrow> declared_once st')"






section \<open>Example inputs\<close>

text \<open>
  An environment with the values of ZFS on Linux 0.8 (four scan states, three scan
  functions, no macro \<open>EZFS_SCRUB_PAUSED\<close>, no trim histograms), a fixed clock and a
  library that names every vdev state \<open>ONLINE\<close>; a configuration that only carries scan
  statistics; and three scan statistics: a scrub that finished on an empty pool, a scrub
  that finished after 10 seconds and 100 bytes, and a scrub whose pass started 100 seconds
  ago, 50 of which it spent paused, and has examined 3000 bytes and issued 2500.
\<close>

definition example_env :: env where
  "example_env = \<lparr>DSS_NUM_STATES = 4, POOL_SCAN_FUNCS = 3, EZFS_SCRUB_PAUSED = False,
     VDEV_TRIM_LAT_HISTO = False, VDEV_IND_TRIM_HISTO = False,
     zpool_state_to_name = (\<lambda>s a. ''ONLINE''), time_now = 1700000000,
     pass_scanned_indeterminate = 0\<rparr>"

definition scan_nvroot :: "pool_scan_stat \<Rightarrow> nvlist" where
  "scan_nvroot ps = Nvlist (Some ''root'') (Some 0) None None None (Some ps) None"

definition empty_pool_scan :: pool_scan_stat where
  "empty_pool_scan = \<lparr>pss_func = 1, pss_state = 2, pss_start_time = 1000, pss_end_time = 1010,
     pss_to_examine = 0, pss_examined = 0, pss_errors = 0, pss_pass_exam = 0,
     pss_pass_start = 1000,
     pss_pass_scrub_pause = 0, pss_pass_scrub_spent_paused = 0, pss_pass_issued = 0,
     pss_issued = 0\<rparr>"

definition finished_scan :: pool_scan_stat where
  "finished_scan = \<lparr>pss_func = 1, pss_state = 2, pss_start_time = 1000, pss_end_time = 1010,
     pss_to_examine = 100, pss_examined = 100, pss_errors = 0, pss_pass_exam = 100,
     pss_pass_start = 1000,
     pss_pass_scrub_pause = 0, pss_pass_scrub_spent_paused = 0, pss_pass_issued = 100,
     pss_issued = 100\<rparr>"

definition running_scan :: pool_scan_stat where
  "running_scan = \<lparr>pss_func = 1, pss_state = 1, pss_start_time = 1699999000,
     pss_end_time = 0, pss_to_examine = 5000, pss_examined = 3000, pss_errors = 0,
     pss_pass_exam = 3000, pss_pass_start = 1699999900, pss_pass_scrub_pause = 0,
     pss_pass_scrub_spent_paused = 50, pss_pass_issued = 2500, pss_issued = 2500\<rparr>"

text \<open>The statistics of a vdev holding 1000 of 5000 bytes.\<close>

definition example_vdev_stat :: vdev_stat where
  "example_vdev_stat = \<lparr>vs_state = 7, vs_aux = 0, vs_alloc = 1000, vs_space = 5000,
     vs_bytes_READ = 10, vs_bytes_WRITE = 20, vs_ops_READ = 1, vs_ops_WRITE = 2,
     vs_read_errors = 0, vs_write_errors = 0, vs_checksum_errors = 0, vs_fragmentation = 300\<rparr>"

text \<open>
  Extended statistics that have every histogram, with the single count 0, and every queue
  depth; and a pool \<open>tank\<close> whose root vdev has all its statistics and one child, a disk
  that has its summary statistics but no extended statistics.
\<close>

definition full_ex :: nvlist_ex where
  "full_ex = \<lparr>uint64_array = (\<lambda>name. Some [0]), uint64 = (\<lambda>name. Some 0)\<rparr>"

definition example_leaf :: nvlist where
  "example_leaf = Nvlist (Some ''disk'') (Some 0) (Some ''/dev/sda1'') (Some example_vdev_stat)
     None None None"

definition example_root :: nvlist where
  "example_root = Nvlist (Some ''root'') (Some 0) None (Some example_vdev_stat)
     (Some full_ex) (Some finished_scan) (Some [example_leaf])"

definition example_pool :: zpool_handle where
  "example_pool = \<lparr>zpool_name = ''tank'', zpool_refresh_stats = 0,
     CONFIG_VDEV_TREE = Some example_root\<rparr>"

definition bogus_scan :: pool_scan_stat where
  "bogus_scan = finished_scan\<lparr>pss_state := 7\<rparr>"


section \<open>The u64 value encoder keeps the low 52 bits\<close>

lemma mask52: "push_bit SIGNIFICANT_BITS (1 :: 64 word) - 1 = mask 52"
  by (simp add: SIGNIFICANT_BITS_def mask_eq_exp_minus_1)

lemma and_mask52: "(v :: 64 word) AND mask 52 = word_of_nat (unat v mod 2 ^ 52)"
  by (metis (mono_tags, lifting) and_mask_mod_2p of_int_of_nat_eq of_nat_mod
    of_nat_numeral of_nat_power of_nat_unat)

lemma unat_and_mask52: "unat ((v :: 64 word) AND mask 52) = unat v mod 2 ^ 52"
proof -
  have "unat v mod 2 ^ 52 < 2 ^ 64"
    by (rule less_trans [of _ "2 ^ 52"]) simp_all
  then show ?thesis
    by (simp only: and_mask52 unat_of_nat) simp
qed

lemma out_print_prom_u64:
  "out (print_prom_u64 p m l v h t st) =
     out (print_help_type (snprintf 200 (p @ ''_'' @ m)) h t st)
       @ [SampleU64 (snprintf 200 (p @ ''_'' @ m)) l (v AND mask 52)]"
  by (simp only: print_prom_u64_def Let_def printf_def mask52) simp

text \<open>
  C4. For every unsigned 64-bit value \<open>v\<close> handed to \<open>print_prom_u64\<close>, the line it prints is
  the last line of the output and the number on it is \<open>v mod 2^52\<close>; for \<open>v = 2^52 + 5\<close>
  the number is 5, and every \<open>v < 2^52\<close> is printed unchanged.
\<close>

theorem print_prom_u64_low_52_bits:
  "out (print_prom_u64 p m l v h t st) =
     out (print_help_type (snprintf 200 (p @ ''_'' @ m)) h t st)
       @ [SampleU64 (snprintf 200 (p @ ''_'' @ m)) l (word_of_nat (unat v mod 2 ^ 52))]
   \<and> sample_value (last (out (print_prom_u64 p m l v h t st))) = Some (unat v mod 2 ^ 52)
   \<and> sample_value (last (out (print_prom_u64 p m l (2 ^ 52 + 5) h t st))) = Some 5
   \<and> (v < 2 ^ 52 \<longrightarrow> sample_value (last (out (print_prom_u64 p m l v h t st))) = Some (unat v))"
proof -
  have a: "out (print_prom_u64 p m l v h t st) =
     out (print_help_type (snprintf 200 (p @ ''_'' @ m)) h t st)
       @ [SampleU64 (snprintf 200 (p @ ''_'' @ m)) l (word_of_nat (unat v mod 2 ^ 52))]"
    by (simp only: out_print_prom_u64 and_mask52)
  have b: "sample_value (last (out (print_prom_u64 p m l w h t st))) = Some (unat w mod 2 ^ 52)"
    for w
    by (simp add: out_print_prom_u64 unat_and_mask52)
  have c: "unat (2 ^ 52 + 5 :: 64 word) mod 2 ^ 52 = 5"
    by simp
  have d: "unat v mod 2 ^ 52 = unat v" if "v < 2 ^ 52"
  proof -
    from that have "unat v < unat (2 ^ 52 :: 64 word)"
      by (simp only: word_less_nat_alt)
    then show ?thesis by simp
  qed
  from b [of "2 ^ 52 + 5"] c
  have e: "sample_value (last (out (print_prom_u64 p m l (2 ^ 52 + 5) h t st))) = Some 5"
    by (simp only:)
  from b [of v] d
  have f: "v < 2 ^ 52 \<longrightarrow> sample_value (last (out (print_prom_u64 p m l v h t st))) = Some (unat v)"
    by simp
  from a b [of v] e f show ?thesis
    by (intro conjI)
qed

theorem print_prom_u64_low_52_bits_witness:
  "(7 :: 64 word) < 2 ^ 52 \<and>
   sample_value (last (out (print_prom_u64 ''zpool_stats'' ''read_ops'' None 7 None None init_state)))
     = Some 7"
  using print_prom_u64_low_52_bits [of "''zpool_stats''" "''read_ops''" None 7 None None init_state]
  by simp

section \<open>The text of the bounds and the label buffer\<close>

lemma decimal_digit: "n < 10 \<Longrightarrow> decimal n = [''0123456789'' ! n]"
  by (subst decimal.simps) simp

lemma decimal_step: "10 \<le> n \<Longrightarrow> decimal n = decimal (n div 10) @ [''0123456789'' ! (n mod 10)]"
  by (subst decimal.simps) simp

lemma length_decimal: "0 < k \<Longrightarrow> n < 10 ^ k \<Longrightarrow> length (decimal n) \<le> k"
proof (induction k arbitrary: n)
  case 0
  then show ?case by simp
next
  case (Suc k)
  show ?case
  proof (cases "n < 10")
    case True
    then show ?thesis by (simp add: decimal_digit)
  next
    case False
    then have k: "0 < k" using Suc.prems(2) by (cases k) simp_all
    have "n div 10 < 10 ^ k"
      using Suc.prems(2) by (simp add: less_mult_imp_div_less mult.commute)
    from Suc.IH [OF k this] False show ?thesis
      by (simp add: decimal_step)
  qed
qed

text \<open>
  The bounds of the latency buckets 10 to 19 are printed as 0.000001, 0.000002, 0.000004,
  0.000008, 0.000016, 0.000033, 0.000066, 0.000131, 0.000262 and 0.000524, and the bounds
  of the request size buckets 9 to 11 as 512, 1024 and 2048.
\<close>

lemma le_seconds_list: "map le_seconds [10..<64] =
  [1, 2, 4, 8, 16, 33, 66, 131, 262, 524, 1049, 2097, 4194, 8389, 16777, 33554, 67109,
   134218, 268435, 536871, 1073742, 2147484, 4294967, 8589935, 17179869, 34359738,
   68719477, 137438953, 274877907, 549755814, 1099511628, 2199023256, 4398046511,
   8796093022, 17592186044, 35184372089, 70368744178, 140737488355, 281474976711,
   562949953421, 1125899906843, 2251799813685, 4503599627370, 9007199254741,
   18014398509482, 36028797018964, 72057594037928, 144115188075856, 288230376151712,
   576460752303424, 1152921504606847, 2305843009213694, 4611686018427388,
   9223372036854776]"
  by (simp add: le_seconds_def Let_def upt_conv_Cons)

lemma le_text_examples:
  "le_text (LeSeconds (le_seconds 10)) = ''0.000001''"
  "le_text (LeSeconds (le_seconds 15)) = ''0.000033''"
  "le_text (LeSeconds (le_seconds 36)) = ''68.719477''"
  "le_text (LeBytes (le_bytes 9)) = ''512''"
  "le_text (LeBytes (le_bytes 31)) = ''-2147483648''"
  "le_text (LeBytes (le_bytes 32)) = ''1''"
  by (simp_all add: le_seconds_def le_bytes_def Let_def digits6_def decimal_digit decimal_step)

lemma le_seconds_sorted: "sorted_wrt (<) (map le_seconds [10..<64])"
  by (simp only: le_seconds_list) simp

lemma le_seconds_mono: "10 \<le> i \<Longrightarrow> i < j \<Longrightarrow> j < 64 \<Longrightarrow> le_seconds i < le_seconds j"
proof -
  assume a: "10 \<le> i" "i < j" "j < 64"
  have "i - 10 < j - 10" "j - 10 < length (map le_seconds [10..<64])"
    using a by simp_all
  from sorted_wrt_nth_less [OF le_seconds_sorted this] a show ?thesis
    by (simp add: nth_map del: upt_rec_numeral)
qed

lemma le_seconds_bound: "le_seconds j < 10 ^ 16"
proof -
  have "j mod 64 \<le> 63" by simp
  then have "(2 :: nat) ^ (j mod 64) \<le> 2 ^ 63"
    by (rule power_increasing) simp
  then have "4835703278458517 * 2 ^ (j mod 64) * 1000000 \<le> (4835703278458517 * 2 ^ 63 * 1000000 :: nat)"
    by simp
  then have "(4835703278458517 * 2 ^ (j mod 64) * 1000000) div 2 ^ 82
      \<le> (4835703278458517 * 2 ^ 63 * 1000000 :: nat) div 2 ^ 82"
    by (rule div_le_mono)
  also have "\<dots> = 9223372036854776" by simp
  finally show ?thesis
    by (simp add: le_seconds_def Let_def)
qed

lemma length_le_text_seconds: "length (le_text (LeSeconds (le_seconds j))) \<le> 17"
proof -
  have "le_seconds j div 1000000 < 10 ^ 10"
    using le_seconds_bound [of j] by (simp add: less_mult_imp_div_less)
  from length_decimal [OF _ this] show ?thesis
    by (simp add: digits6_def)
qed

lemma sint_2p_32: "j < 31 \<Longrightarrow> sint (2 ^ j :: 32 word) = 2 ^ j"
proof -
  assume j: "j < 31"
  have p: "(0 :: 32 word) < 2 ^ j"
    using j by (simp add: word_gt_0 power_eq_0_iff)
  have "(2 :: int) ^ j < 2 ^ 31"
    using j by (intro power_strict_increasing) simp_all
  moreover have "- (2 ^ 31) \<le> (2 :: int) ^ j"
    by (rule order_trans [of _ 0]) simp_all
  ultimately have "signed_take_bit 31 (2 ^ j :: int) = 2 ^ j"
    by (simp only: signed_take_bit_int_eq_self_iff)
  then show ?thesis
    by (simp add: sint_uint uint_2p [OF p])
qed

lemma le_bytes_small: "j < 31 \<Longrightarrow> le_bytes j = 2 ^ j"
  using sint_2p_32 [of j] by (simp add: le_bytes_def push_bit_eq_mult)

lemma le_bytes_mono: "i < j \<Longrightarrow> j < 31 \<Longrightarrow> le_bytes i < le_bytes j"
  by (simp add: le_bytes_small)

lemma length_le_text_bytes: "length (le_text (LeBytes (le_bytes j))) \<le> 11"
proof -
  have "sint (push_bit (j mod 32) (1 :: 32 word)) < 2 ^ 31"
    "- (2 ^ 31) \<le> sint (push_bit (j mod 32) (1 :: 32 word))"
    using sint_lt [of "push_bit (j mod 32) (1 :: 32 word)"]
      sint_ge [of "push_bit (j mod 32) (1 :: 32 word)"]
    by simp_all
  then have "nat (le_bytes j) < 10 ^ 10" "nat (- le_bytes j) < 10 ^ 10"
    by (simp_all add: le_bytes_def)
  from length_decimal [OF _ this(1)] length_decimal [OF _ this(2)] show ?thesis
    by simp
qed

text \<open>
  The label that is printed is in every case the text that \<open>snprintf\<close> leaves in the
  buffer. It keeps its bound when the pool name and the description of the vdev leave room
  for it: the text has 14 more characters, and those of the bound, which are at most 17.
\<close>

lemma label_text_snprintf_le: "label_text (snprintf_le n s b) = snprintf n (label_text (LE s b))"
  by (simp add: snprintf_le_def snprintf_def)

lemma snprintf_le_fits:
  "length s + length (le_text b) + 6 < n \<Longrightarrow> snprintf_le n s b = LE s b"
  by (simp add: snprintf_le_def)

lemma seconds_label_fits:
  assumes "length pool_name + length vdev_desc \<le> 480"
  shows "snprintf_le 512 (''name=\"'' @ pool_name @ ''\",'' @ vdev_desc) (LeSeconds (le_seconds j))
     = LE (''name=\"'' @ pool_name @ ''\",'' @ vdev_desc) (LeSeconds (le_seconds j))"
  using assms length_le_text_seconds [of j] by (intro snprintf_le_fits) simp

lemma bytes_label_fits:
  assumes "length pool_name + length vdev_desc \<le> 480"
  shows "snprintf_le 512 (''name=\"'' @ pool_name @ ''\",'' @ vdev_desc) (LeBytes (le_bytes j))
     = LE (''name=\"'' @ pool_name @ ''\",'' @ vdev_desc) (LeBytes (le_bytes j))"
  using assms length_le_text_bytes [of j] by (intro snprintf_le_fits) simp

lemma inf_label_fits:
  assumes "length (''name=\"'' @ pool_name @ ''\",'' @ vdev_desc @ '',le=\"+Inf\"'') < 512"
  shows "snprintf_le 512 (''name=\"'' @ pool_name @ ''\",'' @ vdev_desc) LeInf
     = LE (''name=\"'' @ pool_name @ ''\",'' @ vdev_desc) LeInf"
  using assms by (simp add: snprintf_le_def)

lemma inf_label_fits_480:
  assumes "length pool_name + length vdev_desc \<le> 480"
  shows "snprintf_le 512 (''name=\"'' @ pool_name @ ''\",'' @ vdev_desc) LeInf
     = LE (''name=\"'' @ pool_name @ ''\",'' @ vdev_desc) LeInf"
  using assms by (simp add: snprintf_le_def)

section \<open>The histogram loops in closed form\<close>

lemma out_print_help_type_None [simp]: "out (print_help_type n None None st) = out st"
  by (simp add: print_help_type_def)

lemma out_print_prom_u64_None:
  "out (print_prom_u64 p s l v None None st) = out st @ [SampleU64 (snprintf 200 (p @ ''_'' @ s)) l (v AND mask 52)]"
  by (simp add: out_print_prom_u64)

lemma latency_loop_j_step:
  assumes "j \<le> end"
    and "\<And>st'. out (latency_loop_j name pool_name vdev_desc a end (Suc j) (sm + a ! j) st') = out st' @ X"
  shows "out (latency_loop_j name pool_name vdev_desc a end j sm st) =
           out st @ latency_lines name pool_name vdev_desc end j (sm + a ! j) @ X"
  using assms(1)
  apply (subst latency_loop_j.simps)
  apply (simp add: Let_def assms(2) latency_lines_def out_print_prom_u64_None ZFS_MAX_DATASET_NAME_LEN_def)
  done

lemma latency_loop_j_out:
  "end < length a \<Longrightarrow> j \<le> Suc end \<Longrightarrow>
   out (latency_loop_j name pool_name vdev_desc a end j (sum_list (take j a)) st) =
     out st @ concat (map (\<lambda>k. latency_lines name pool_name vdev_desc end k (sum_list (take (Suc k) a))) [j..<Suc end])"
proof (induction "Suc end - j" arbitrary: j st)
  case 0
  then have "j = Suc end" by simp
  then show ?case by (subst latency_loop_j.simps) simp
next
  case (Suc n)
  then have j: "j \<le> end" "j < length a" by simp_all
  have sm: "sum_list (take j a) + a ! j = sum_list (take (Suc j) a)"
    using j(2) by (simp add: take_Suc_conv_app_nth)
  have n: "n = Suc end - Suc j" using Suc.hyps(2) by simp
  have up: "[j..<Suc end] = j # [Suc j..<Suc end]"
    using j(1) by (simp add: upt_conv_Cons)
  have ih: "out (latency_loop_j name pool_name vdev_desc a end (Suc j) (sum_list (take j a) + a ! j) st') =
     out st' @ concat (map (\<lambda>k. latency_lines name pool_name vdev_desc end k (sum_list (take (Suc k) a))) [Suc j..<Suc end])" for st'
    using Suc.hyps(1) [OF n, of st'] Suc.prems(1) j(1) by (simp only: sm)
  show ?case
    by (simp only: latency_loop_j_step [OF j(1) ih] up sm) simp
qed


lemma unat_sum_list: "unat (sum_list (ws :: 64 word list)) = sum_list (map unat ws) mod 2 ^ 64"
proof (induction ws)
  case Nil
  show ?case by simp
next
  case (Cons w ws)
  have "unat (w + sum_list ws) = (unat w + unat (sum_list ws)) mod 2 ^ 64"
    by (simp add: unat_word_ariths)
  also have "\<dots> = (unat w + sum_list (map unat ws) mod 2 ^ 64) mod 2 ^ 64"
    by (simp only: Cons.IH)
  also have "\<dots> = (unat w + sum_list (map unat ws)) mod 2 ^ 64"
    by (rule mod_add_right_eq)
  finally show ?case by simp
qed

lemma unat_cumulative: "unat (sum_list (ws :: 64 word list) AND mask 52) = sum_list (map unat ws) mod 2 ^ 52"
proof -
  have "(2 :: nat) ^ 52 dvd 2 ^ 64"
    by (rule le_imp_power_dvd) simp
  then have "sum_list (map unat ws) mod 2 ^ 64 mod 2 ^ 52 = sum_list (map unat ws) mod 2 ^ 52"
    by (rule mod_mod_cancel)
  then show ?thesis
    by (simp only: unat_and_mask52 unat_sum_list)
qed

lemma buckets_append [simp]: "buckets (xs @ ys) = buckets xs @ buckets ys"
  by (simp add: buckets_def map_filter_def)

lemma buckets_Nil [simp]: "buckets [] = []"
  by (simp add: buckets_def map_filter_def)

lemma buckets_Cons: "buckets (x # xs) = (case bucket x of None \<Rightarrow> buckets xs | Some b \<Rightarrow> b # buckets xs)"
  by (simp add: buckets_def map_filter_def split: option.splits)

lemma buckets_concat: "buckets (concat (map f ks)) = concat (map (\<lambda>k. buckets (f k)) ks)"
  by (induction ks) simp_all

lemma buckets_latency_lines:
  assumes "length pool_name + length vdev_desc \<le> 480"
  shows "buckets (latency_lines name pool_name vdev_desc end k v) =
     (if MIN_LAT_INDEX \<le> k \<and> k < end then [(LeSeconds (le_seconds k), unat (v AND mask 52))] else [])
     @ (if k = end then [(LeInf, unat (v AND mask 52))] else [])"
  by (simp only: latency_lines_def seconds_label_fits [OF assms] inf_label_fits_480 [OF assms])
     (simp add: buckets_Cons)

lemma concat_map_if: "concat (map (\<lambda>k. if P k then [f k] else []) ks) = map f (filter P ks)"
  by (induction ks) simp_all

lemma filter_ge_upt: "filter (\<lambda>k. m \<le> k) [0..<n] = [m..<n]"
  by (induction n) (auto simp: not_less_eq_eq)

lemma emitted_append: "out st' = out st @ new \<Longrightarrow> emitted st st' = new"
  by (simp add: emitted_def)

lemma latency_buckets:
  assumes "a \<noteq> []" and fits: "length pool_name + length vdev_desc \<le> 480"
  shows "buckets (emitted st (latency_loop_j name pool_name vdev_desc a (length a - 1) 0 0 st)) =
           map (\<lambda>k. (LeSeconds (le_seconds k), sum_list (map unat (take (Suc k) a)) mod 2 ^ 52))
             [MIN_LAT_INDEX..<length a - 1]
           @ [(LeInf, sum_list (map unat a) mod 2 ^ 52)]"
proof -
  define e where "e = length a - 1"
  have e: "e < length a" "Suc e = length a"
    using assms(1) by (simp_all add: e_def)
  have "out (latency_loop_j name pool_name vdev_desc a e 0 (sum_list (take 0 a)) st) =
     out st @ concat (map (\<lambda>k. latency_lines name pool_name vdev_desc e k (sum_list (take (Suc k) a))) [0..<Suc e])"
    by (rule latency_loop_j_out [OF e(1)]) simp
  then have em: "emitted st (latency_loop_j name pool_name vdev_desc a e 0 0 st) =
     concat (map (\<lambda>k. latency_lines name pool_name vdev_desc e k (sum_list (take (Suc k) a))) [0..<Suc e])"
    by (simp add: emitted_append)
  have low: "concat (map (\<lambda>k. buckets (latency_lines name pool_name vdev_desc e k (sum_list (take (Suc k) a)))) [0..<e])
     = map (\<lambda>k. (LeSeconds (le_seconds k), sum_list (map unat (take (Suc k) a)) mod 2 ^ 52)) [MIN_LAT_INDEX..<e]"
  proof -
    have "concat (map (\<lambda>k. buckets (latency_lines name pool_name vdev_desc e k (sum_list (take (Suc k) a)))) [0..<e])
      = concat (map (\<lambda>k. if MIN_LAT_INDEX \<le> k then [(LeSeconds (le_seconds k), sum_list (map unat (take (Suc k) a)) mod 2 ^ 52)] else []) [0..<e])"
      by (rule arg_cong [where f = concat], rule map_cong)
         (simp_all add: buckets_latency_lines [OF fits] unat_cumulative take_map)
    then show ?thesis
      by (simp only: concat_map_if filter_ge_upt)
  qed
  have "buckets (emitted st (latency_loop_j name pool_name vdev_desc a e 0 0 st)) =
      concat (map (\<lambda>k. buckets (latency_lines name pool_name vdev_desc e k (sum_list (take (Suc k) a)))) [0..<e])
      @ buckets (latency_lines name pool_name vdev_desc e e (sum_list (take (Suc e) a)))"
    by (simp add: em buckets_concat)
  also have "\<dots> = map (\<lambda>k. (LeSeconds (le_seconds k), sum_list (map unat (take (Suc k) a)) mod 2 ^ 52)) [MIN_LAT_INDEX..<e]
           @ [(LeInf, sum_list (map unat a) mod 2 ^ 52)]"
    by (simp only: low) (simp add: buckets_latency_lines [OF fits] unat_cumulative e(2))
  finally have "buckets (emitted st (latency_loop_j name pool_name vdev_desc a e 0 0 st)) =
      map (\<lambda>k. (LeSeconds (le_seconds k), sum_list (map unat (take (Suc k) a)) mod 2 ^ 52)) [MIN_LAT_INDEX..<e]
           @ [(LeInf, sum_list (map unat a) mod 2 ^ 52)]" .
  then show ?thesis by (simp only: e_def)
qed


lemma size_loop_j_step:
  assumes "j \<le> end"
    and "\<And>st'. out (size_loop_j short_name pool_name vdev_desc a end (Suc j) (sm + a ! j) st') = out st' @ X"
  shows "out (size_loop_j short_name pool_name vdev_desc a end j sm st) =
           out st @ size_lines short_name pool_name vdev_desc end j (sm + a ! j) @ X"
  using assms(1)
  apply (subst size_loop_j.simps)
  apply (simp add: Let_def assms(2) size_lines_def out_print_prom_u64_None ZFS_MAX_DATASET_NAME_LEN_def)
  done

lemma size_loop_j_out:
  "end < length a \<Longrightarrow> j \<le> Suc end \<Longrightarrow>
   out (size_loop_j short_name pool_name vdev_desc a end j (sum_list (take j a)) st) =
     out st @ concat (map (\<lambda>k. size_lines short_name pool_name vdev_desc end k (sum_list (take (Suc k) a))) [j..<Suc end])"
proof (induction "Suc end - j" arbitrary: j st)
  case 0
  then have "j = Suc end" by simp
  then show ?case by (subst size_loop_j.simps) simp
next
  case (Suc n)
  then have j: "j \<le> end" "j < length a" by simp_all
  have sm: "sum_list (take j a) + a ! j = sum_list (take (Suc j) a)"
    using j(2) by (simp add: take_Suc_conv_app_nth)
  have n: "n = Suc end - Suc j" using Suc.hyps(2) by simp
  have up: "[j..<Suc end] = j # [Suc j..<Suc end]"
    using j(1) by (simp add: upt_conv_Cons)
  have ih: "out (size_loop_j short_name pool_name vdev_desc a end (Suc j) (sum_list (take j a) + a ! j) st') =
     out st' @ concat (map (\<lambda>k. size_lines short_name pool_name vdev_desc end k (sum_list (take (Suc k) a))) [Suc j..<Suc end])" for st'
    using Suc.hyps(1) [OF n, of st'] Suc.prems(1) j(1) by (simp only: sm)
  show ?case
    by (simp only: size_loop_j_step [OF j(1) ih] up sm) simp
qed

lemma buckets_size_lines:
  assumes "length pool_name + length vdev_desc \<le> 480"
  shows "buckets (size_lines short_name pool_name vdev_desc end k v) =
     (if MIN_SIZE_INDEX \<le> k \<and> k \<le> end then [(LeBytes (le_bytes k), unat (v AND mask 52))] else [])
     @ (if k = end then [(LeInf, unat (v AND mask 52))] else [])"
  by (simp only: size_lines_def bytes_label_fits [OF assms] inf_label_fits_480 [OF assms])
     (simp add: buckets_Cons)

lemma size_buckets:
  assumes "a \<noteq> []" and fits: "length pool_name + length vdev_desc \<le> 480"
  shows "buckets (emitted st (size_loop_j short_name pool_name vdev_desc a (length a - 1) 0 0 st)) =
           map (\<lambda>k. (LeBytes (le_bytes k), sum_list (map unat (take (Suc k) a)) mod 2 ^ 52))
             [MIN_SIZE_INDEX..<length a]
           @ [(LeInf, sum_list (map unat a) mod 2 ^ 52)]"
proof -
  define e where "e = length a - 1"
  have e: "e < length a" "Suc e = length a"
    using assms(1) by (simp_all add: e_def)
  have "out (size_loop_j short_name pool_name vdev_desc a e 0 (sum_list (take 0 a)) st) =
     out st @ concat (map (\<lambda>k. size_lines short_name pool_name vdev_desc e k (sum_list (take (Suc k) a))) [0..<Suc e])"
    by (rule size_loop_j_out [OF e(1)]) simp
  then have em: "emitted st (size_loop_j short_name pool_name vdev_desc a e 0 0 st) =
     concat (map (\<lambda>k. size_lines short_name pool_name vdev_desc e k (sum_list (take (Suc k) a))) [0..<Suc e])"
    by (simp add: emitted_append)
  have low: "concat (map (\<lambda>k. buckets (size_lines short_name pool_name vdev_desc e k (sum_list (take (Suc k) a)))) [0..<e])
     = map (\<lambda>k. (LeBytes (le_bytes k), sum_list (map unat (take (Suc k) a)) mod 2 ^ 52)) [MIN_SIZE_INDEX..<e]"
  proof -
    have "concat (map (\<lambda>k. buckets (size_lines short_name pool_name vdev_desc e k (sum_list (take (Suc k) a)))) [0..<e])
      = concat (map (\<lambda>k. if MIN_SIZE_INDEX \<le> k then [(LeBytes (le_bytes k), sum_list (map unat (take (Suc k) a)) mod 2 ^ 52)] else []) [0..<e])"
      by (rule arg_cong [where f = concat], rule map_cong)
         (simp_all add: buckets_size_lines [OF fits] unat_cumulative take_map)
    then show ?thesis
      by (simp only: concat_map_if filter_ge_upt)
  qed
  have tk: "take (Suc e) a = a"
    using e(2) by simp
  have "buckets (emitted st (size_loop_j short_name pool_name vdev_desc a e 0 0 st)) =
      concat (map (\<lambda>k. buckets (size_lines short_name pool_name vdev_desc e k (sum_list (take (Suc k) a)))) [0..<e])
      @ buckets (size_lines short_name pool_name vdev_desc e e (sum_list (take (Suc e) a)))"
    by (simp add: em buckets_concat)
  also have "\<dots> = map (\<lambda>k. (LeBytes (le_bytes k), sum_list (map unat (take (Suc k) a)) mod 2 ^ 52)) [MIN_SIZE_INDEX..<Suc e]
           @ [(LeInf, sum_list (map unat a) mod 2 ^ 52)]"
    by (simp only: low) (simp add: buckets_size_lines [OF fits] unat_cumulative tk)
  finally have "buckets (emitted st (size_loop_j short_name pool_name vdev_desc a e 0 0 st)) =
      map (\<lambda>k. (LeBytes (le_bytes k), sum_list (map unat (take (Suc k) a)) mod 2 ^ 52)) [MIN_SIZE_INDEX..<Suc e]
           @ [(LeInf, sum_list (map unat a) mod 2 ^ 52)]" .
  then show ?thesis by (simp only: e_def e(2) [unfolded e_def])
qed

lemma sum_list_take_le:
  "i \<le> j \<Longrightarrow> sum_list (take i (xs :: nat list)) \<le> sum_list (take j xs)"
proof -
  assume "i \<le> j"
  then have "take j xs = take i xs @ take (j - i) (drop i xs)"
    by (metis le_add_diff_inverse take_add)
  then show ?thesis by simp
qed

lemma sum_list_take_le_all: "sum_list (take i (xs :: nat list)) \<le> sum_list xs"
  using sum_list_take_le [of i "max i (length xs)" xs] by simp

lemma sorted_cumulative:
  fixes xs :: "nat list"
  assumes "sum_list xs < M"
  shows "sorted (map (\<lambda>k. sum_list (take (Suc k) xs) mod M) [m..<n] @ [sum_list xs mod M])"
proof -
  have small: "sum_list (take i xs) mod M = sum_list (take i xs)" for i
    using sum_list_take_le_all [of i xs] assms by simp
  have "sorted (map (\<lambda>k. sum_list (take (Suc k) xs)) [m..<n])"
    by (simp add: sorted_map sorted_wrt_mono_rel [OF _ sorted_upt [of m n], where Q = "\<lambda>x y. sum_list (take (Suc x) xs) \<le> sum_list (take (Suc y) xs)"] sum_list_take_le)
  then show ?thesis
    using assms by (simp add: small sorted_append sum_list_take_le_all)
qed


lemma latency_emitted:
  assumes "a \<noteq> []"
  shows "emitted st (latency_loop_j name pool_name vdev_desc a (length a - 1) 0 0 st) =
     concat (map (\<lambda>k. latency_lines name pool_name vdev_desc (length a - 1) k (sum_list (take (Suc k) a)))
        [0..<length a - 1])
     @ latency_lines name pool_name vdev_desc (length a - 1) (length a - 1) (sum_list a)"
proof -
  define e where "e = length a - 1"
  have e: "e < length a" "take (Suc e) a = a"
    using assms by (simp_all add: e_def)
  have "out (latency_loop_j name pool_name vdev_desc a e 0 (sum_list (take 0 a)) st) =
     out st @ concat (map (\<lambda>k. latency_lines name pool_name vdev_desc e k (sum_list (take (Suc k) a))) [0..<Suc e])"
    by (rule latency_loop_j_out [OF e(1)]) simp
  then have "emitted st (latency_loop_j name pool_name vdev_desc a e 0 0 st) =
     concat (map (\<lambda>k. latency_lines name pool_name vdev_desc e k (sum_list (take (Suc k) a))) [0..<Suc e])"
    by (simp add: emitted_append)
  then have "emitted st (latency_loop_j name pool_name vdev_desc a e 0 0 st) =
     concat (map (\<lambda>k. latency_lines name pool_name vdev_desc e k (sum_list (take (Suc k) a))) [0..<e])
     @ latency_lines name pool_name vdev_desc e e (sum_list a)"
    by (simp add: e(2))
  then show ?thesis
    by (simp only: e_def)
qed

lemma size_emitted:
  assumes "a \<noteq> []"
  shows "emitted st (size_loop_j name pool_name vdev_desc a (length a - 1) 0 0 st) =
     concat (map (\<lambda>k. size_lines name pool_name vdev_desc (length a - 1) k (sum_list (take (Suc k) a)))
        [0..<length a - 1])
     @ size_lines name pool_name vdev_desc (length a - 1) (length a - 1) (sum_list a)"
proof -
  define e where "e = length a - 1"
  have e: "e < length a" "take (Suc e) a = a"
    using assms by (simp_all add: e_def)
  have "out (size_loop_j name pool_name vdev_desc a e 0 (sum_list (take 0 a)) st) =
     out st @ concat (map (\<lambda>k. size_lines name pool_name vdev_desc e k (sum_list (take (Suc k) a))) [0..<Suc e])"
    by (rule size_loop_j_out [OF e(1)]) simp
  then have "emitted st (size_loop_j name pool_name vdev_desc a e 0 0 st) =
     concat (map (\<lambda>k. size_lines name pool_name vdev_desc e k (sum_list (take (Suc k) a))) [0..<Suc e])"
    by (simp add: emitted_append)
  then have "emitted st (size_loop_j name pool_name vdev_desc a e 0 0 st) =
     concat (map (\<lambda>k. size_lines name pool_name vdev_desc e k (sum_list (take (Suc k) a))) [0..<e])
     @ size_lines name pool_name vdev_desc e e (sum_list a)"
    by (simp add: e(2))
  then show ?thesis
    by (simp only: e_def)
qed


section \<open>Histogram buckets\<close>

lemma le_sorted_latency:
  assumes "n \<le> 64"
  shows "sorted_wrt le_less
    (map fst (map (\<lambda>k. (LeSeconds (le_seconds k), f k)) [MIN_LAT_INDEX..<n] @ [(LeInf, t)]))"
proof -
  have "sorted_wrt (\<lambda>x y. le_seconds x < le_seconds y) [MIN_LAT_INDEX..<n]"
    using assms
    by (intro sorted_wrt_mono_rel [OF _ sorted_wrt_upt [of MIN_LAT_INDEX n]])
       (simp add: MIN_LAT_INDEX_def le_seconds_mono)
  then show ?thesis
    by (simp add: sorted_wrt_append sorted_wrt_map comp_def)
qed

lemma le_sorted_size:
  assumes "n \<le> 31"
  shows "sorted_wrt le_less
    (map fst (map (\<lambda>k. (LeBytes (le_bytes k), f k)) [MIN_SIZE_INDEX..<n] @ [(LeInf, t)]))"
proof -
  have "sorted_wrt (\<lambda>x y. le_bytes x < le_bytes y) [MIN_SIZE_INDEX..<n]"
    using assms
    by (intro sorted_wrt_mono_rel [OF _ sorted_wrt_upt [of MIN_SIZE_INDEX n]])
       (simp add: le_bytes_mono)
  then show ?thesis
    by (simp add: sorted_wrt_append sorted_wrt_map comp_def)
qed

lemma inf_values_latency:
  "map snd (filter (\<lambda>b. fst b = LeInf) (map (\<lambda>k. (LeSeconds (g k), f k)) ks @ [(LeInf, t)])) = [t]"
  by (induction ks) simp_all

lemma inf_values_size:
  "map snd (filter (\<lambda>b. fst b = LeInf) (map (\<lambda>k. (LeBytes (g k), f k)) ks @ [(LeInf, t)])) = [t]"
  by (induction ks) simp_all

text \<open>
  C2 (as amended). For every histogram encoded from a non-empty array of bucket counts, by
  either histogram loop, with a pool name and a description of the vdev of at most 480
  characters together (no label is cut by its buffer then): exactly one \<open>le="+Inf"\<close>
  line is printed and the number on it is the sum of all entries of the array modulo
  \<open>2^52\<close>, the entries below the minimum index included. The bucket lines come in
  increasing order of the \<open>le\<close> printed on them when the array has at most 65 entries
  (latency) or at most 31 entries (request size), which are the arrays whose bounds are
  computed without overflow; the arrays of ZFS have 37 and 25 entries. When the sum of all
  entries is below \<open>2^52\<close>, the number on the \<open>+Inf\<close> line is that sum and the numbers
  on the bucket lines are non-decreasing in the order of the lines.
\<close>

theorem histogram_inf_bucket_and_order:
  assumes "a \<noteq> []" and "length pool_name + length vdev_desc \<le> 480"
  shows "inf_values (emitted st (latency_loop_j name pool_name vdev_desc a (length a - 1) 0 0 st))
           = [sum_list (map unat a) mod 2 ^ 52]
       \<and> inf_values (emitted st (size_loop_j name pool_name vdev_desc a (length a - 1) 0 0 st))
           = [sum_list (map unat a) mod 2 ^ 52]
       \<and> (length a \<le> 65 \<longrightarrow> sorted_wrt le_less
           (map fst (buckets (emitted st (latency_loop_j name pool_name vdev_desc a (length a - 1) 0 0 st)))))
       \<and> (length a \<le> 31 \<longrightarrow> sorted_wrt le_less
           (map fst (buckets (emitted st (size_loop_j name pool_name vdev_desc a (length a - 1) 0 0 st)))))
       \<and> (sum_list (map unat a) < 2 ^ 52 \<longrightarrow>
            inf_values (emitted st (latency_loop_j name pool_name vdev_desc a (length a - 1) 0 0 st))
              = [sum_list (map unat a)]
          \<and> inf_values (emitted st (size_loop_j name pool_name vdev_desc a (length a - 1) 0 0 st))
              = [sum_list (map unat a)]
          \<and> sorted (bucket_values
                (emitted st (latency_loop_j name pool_name vdev_desc a (length a - 1) 0 0 st)))
          \<and> sorted (bucket_values
                (emitted st (size_loop_j name pool_name vdev_desc a (length a - 1) 0 0 st))))"
proof -
  note lb = latency_buckets [OF assms, of st name]
  note sb = size_buckets [OF assms, of st name]
  have 1: "inf_values (emitted st (latency_loop_j name pool_name vdev_desc a (length a - 1) 0 0 st))
           = [sum_list (map unat a) mod 2 ^ 52]"
    by (simp only: inf_values_def lb inf_values_latency)
  have 2: "inf_values (emitted st (size_loop_j name pool_name vdev_desc a (length a - 1) 0 0 st))
           = [sum_list (map unat a) mod 2 ^ 52]"
    by (simp only: inf_values_def sb inf_values_size)
  have 3: "sorted_wrt le_less
           (map fst (buckets (emitted st (latency_loop_j name pool_name vdev_desc a (length a - 1) 0 0 st))))"
    if "length a \<le> 65"
  proof -
    from that have "length a - 1 \<le> 64" by simp
    then show ?thesis
      by (simp only: lb le_sorted_latency)
  qed
  have 4: "sorted_wrt le_less
           (map fst (buckets (emitted st (size_loop_j name pool_name vdev_desc a (length a - 1) 0 0 st))))"
    if "length a \<le> 31"
    using that by (simp only: sb le_sorted_size)
  have 5: "sorted (bucket_values
                (emitted st (latency_loop_j name pool_name vdev_desc a (length a - 1) 0 0 st)))"
    if "sum_list (map unat a) < 2 ^ 52"
    using sorted_cumulative [OF that, of MIN_LAT_INDEX "length a - 1"]
    by (simp only: bucket_values_def lb) (simp add: comp_def take_map)
  have 6: "sorted (bucket_values
                (emitted st (size_loop_j name pool_name vdev_desc a (length a - 1) 0 0 st)))"
    if "sum_list (map unat a) < 2 ^ 52"
    using sorted_cumulative [OF that, of MIN_SIZE_INDEX "length a"]
    by (simp only: bucket_values_def sb) (simp add: comp_def take_map)
  from 1 2 3 4 5 6 show ?thesis by simp
qed


text \<open>The theorem at an array of twelve counts whose sum is 22.\<close>

theorem histogram_inf_bucket_and_order_witness:
  "[1, 1, 1, 1, 1, 1, 1, 1, 1, 1, 5, 7 :: 64 word] \<noteq> []
   \<and> length ''tank'' + length ''vdev=\"root\"'' \<le> 480
   \<and> length [1, 1, 1, 1, 1, 1, 1, 1, 1, 1, 5, 7 :: 64 word] \<le> 65
   \<and> length [1, 1, 1, 1, 1, 1, 1, 1, 1, 1, 5, 7 :: 64 word] \<le> 31
   \<and> sum_list (map unat [1, 1, 1, 1, 1, 1, 1, 1, 1, 1, 5, 7 :: 64 word]) < 2 ^ 52
   \<and> inf_values (emitted init_state (latency_loop_j ''vdev_tot_r_lat_histo'' ''tank'' ''vdev=\"root\"''
         [1, 1, 1, 1, 1, 1, 1, 1, 1, 1, 5, 7] 11 0 0 init_state)) = [22]
   \<and> sorted_wrt le_less (map fst (buckets (emitted init_state (latency_loop_j ''vdev_tot_r_lat_histo''
         ''tank'' ''vdev=\"root\"'' [1, 1, 1, 1, 1, 1, 1, 1, 1, 1, 5, 7] 11 0 0 init_state))))
   \<and> sorted_wrt le_less (map fst (buckets (emitted init_state (size_loop_j ''vdev_tot_r_lat_histo''
         ''tank'' ''vdev=\"root\"'' [1, 1, 1, 1, 1, 1, 1, 1, 1, 1, 5, 7] 11 0 0 init_state))))
   \<and> sorted (bucket_values (emitted init_state (size_loop_j ''vdev_tot_r_lat_histo'' ''tank''
         ''vdev=\"root\"'' [1, 1, 1, 1, 1, 1, 1, 1, 1, 1, 5, 7] 11 0 0 init_state)))"
proof -
  have len: "length [1, 1, 1, 1, 1, 1, 1, 1, 1, 1, 5, 7 :: 64 word] - 1 = 11"
    "length [1, 1, 1, 1, 1, 1, 1, 1, 1, 1, 5, 7 :: 64 word] = 12"
    by simp_all
  have ne: "[1, 1, 1, 1, 1, 1, 1, 1, 1, 1, 5, 7 :: 64 word] \<noteq> []"
    by simp
  have fits: "length ''tank'' + length ''vdev=\"root\"'' \<le> 480"
    by simp
  have sm: "sum_list (map unat [1, 1, 1, 1, 1, 1, 1, 1, 1, 1, 5, 7 :: 64 word]) = 22"
    by simp
  show ?thesis
    using histogram_inf_bucket_and_order [OF ne fits, of init_state
      "''vdev_tot_r_lat_histo''", unfolded len sm]
    by simp
qed

text \<open>
  Without the bound on the sum the claim fails: with the counts \<open>2^52 - 1\<close> and \<open>1\<close> at
  indices 10 and 11 the sum is \<open>2^52\<close>, the three bucket lines carry \<open>2^52 - 1\<close>, 0 and
  0, and the \<open>+Inf\<close> line carries 0. With a request size array of 32 entries, the
  last of them 1 and the others 0, the bucket of index 31 is printed with the bound
  -2147483648 and the value 1, after the bucket of index 9 with the bound 512 and the
  value 0: the lower bound has the higher value. So it is with a latency array of 66
  entries whose entry of index 64 is 1 and whose other entries are 0: the bucket of index
  64 is printed with the bound 0.000000 and the value 1, after the bucket of index 10 with
  the bound 0.000001 and the value 0. With a pool name of 240 characters and a device path
  of as many, the label of the \<open>+Inf\<close> line is cut after 511 characters and no line
  with \<open>le="+Inf"\<close> is printed.
\<close>

theorem histogram_inf_bucket_counterexample:
  "sum_list (map unat [0, 0, 0, 0, 0, 0, 0, 0, 0, 0, 2 ^ 52 - 1, 1, 0 :: 64 word]) = 2 ^ 52
   \<and> inf_values (emitted init_state (latency_loop_j ''vdev_tot_r_lat_histo'' ''tank'' ''vdev=\"root\"''
         [0, 0, 0, 0, 0, 0, 0, 0, 0, 0, 2 ^ 52 - 1, 1, 0] 12 0 0 init_state)) = [0]
   \<and> bucket_values (emitted init_state (latency_loop_j ''vdev_tot_r_lat_histo'' ''tank'' ''vdev=\"root\"''
         [0, 0, 0, 0, 0, 0, 0, 0, 0, 0, 2 ^ 52 - 1, 1, 0] 12 0 0 init_state))
       = [2 ^ 52 - 1, 0, 0]
   \<and> \<not> sorted (bucket_values (emitted init_state (latency_loop_j ''vdev_tot_r_lat_histo'' ''tank''
         ''vdev=\"root\"'' [0, 0, 0, 0, 0, 0, 0, 0, 0, 0, 2 ^ 52 - 1, 1, 0] 12 0 0 init_state)))
   \<and> (LeBytes 512, 0) \<in> set (buckets (emitted init_state (size_loop_j ''sync_read_ind'' ''tank''
         ''vdev=\"root\"'' (replicate 31 0 @ [1]) 31 0 0 init_state)))
   \<and> (LeBytes (- 2147483648), 1) \<in> set (buckets (emitted init_state (size_loop_j ''sync_read_ind''
         ''tank'' ''vdev=\"root\"'' (replicate 31 0 @ [1]) 31 0 0 init_state)))
   \<and> le_less (LeBytes (- 2147483648)) (LeBytes 512)
   \<and> \<not> sorted_wrt le_less (map fst (buckets (emitted init_state (size_loop_j ''sync_read_ind''
         ''tank'' ''vdev=\"root\"'' (replicate 31 0 @ [1]) 31 0 0 init_state))))
   \<and> (LeSeconds 1, 0) \<in> set (buckets (emitted init_state (latency_loop_j ''vdev_tot_r_lat_histo''
         ''tank'' ''vdev=\"root\"'' (replicate 64 0 @ [1, 0]) 65 0 0 init_state)))
   \<and> (LeSeconds 0, 1) \<in> set (buckets (emitted init_state (latency_loop_j ''vdev_tot_r_lat_histo''
         ''tank'' ''vdev=\"root\"'' (replicate 64 0 @ [1, 0]) 65 0 0 init_state)))
   \<and> le_less (LeSeconds 0) (LeSeconds 1)
   \<and> inf_values (emitted init_state (latency_loop_j ''vdev_tot_r_lat_histo'' (replicate 240 CHR ''a'')
         (''vdev=\"root/disk-0\",path=\"/'' @ replicate 240 CHR ''b'' @ ''\"'') [1] 0 0 0 init_state)) = []"
proof -
  have len: "length [0, 0, 0, 0, 0, 0, 0, 0, 0, 0, 2 ^ 52 - 1, 1, 0 :: 64 word] - 1 = 12"
    by simp
  have up: "[MIN_LAT_INDEX..<12] = [10, 11]"
    by (simp add: MIN_LAT_INDEX_def upt_conv_Cons)
  have fits: "length ''tank'' + length ''vdev=\"root\"'' \<le> 480"
    by simp
  have "buckets (emitted init_state (latency_loop_j ''vdev_tot_r_lat_histo'' ''tank'' ''vdev=\"root\"''
         [0, 0, 0, 0, 0, 0, 0, 0, 0, 0, 2 ^ 52 - 1, 1, 0] 12 0 0 init_state))
       = [(LeSeconds 1, 2 ^ 52 - 1), (LeSeconds 2, 0), (LeInf, 0)]"
    using latency_buckets [OF _ fits, of "[0, 0, 0, 0, 0, 0, 0, 0, 0, 0, 2 ^ 52 - 1, 1, 0]" init_state
      "''vdev_tot_r_lat_histo''", unfolded len up]
    by (simp add: le_seconds_def)
  then have 1: "inf_values (emitted init_state (latency_loop_j ''vdev_tot_r_lat_histo'' ''tank'' ''vdev=\"root\"''
         [0, 0, 0, 0, 0, 0, 0, 0, 0, 0, 2 ^ 52 - 1, 1, 0] 12 0 0 init_state)) = [0]
   \<and> bucket_values (emitted init_state (latency_loop_j ''vdev_tot_r_lat_histo'' ''tank'' ''vdev=\"root\"''
         [0, 0, 0, 0, 0, 0, 0, 0, 0, 0, 2 ^ 52 - 1, 1, 0] 12 0 0 init_state))
       = [2 ^ 52 - 1, 0, 0]
   \<and> \<not> sorted (bucket_values (emitted init_state (latency_loop_j ''vdev_tot_r_lat_histo'' ''tank''
         ''vdev=\"root\"'' [0, 0, 0, 0, 0, 0, 0, 0, 0, 0, 2 ^ 52 - 1, 1, 0] 12 0 0 init_state)))"
    by (simp add: inf_values_def bucket_values_def)
  have len2: "length (replicate 31 (0 :: 64 word) @ [1]) - 1 = 31"
    "length (replicate 31 (0 :: 64 word) @ [1]) = 32"
    by simp_all
  have ne2: "replicate 31 (0 :: 64 word) @ [1] \<noteq> []"
    by simp
  have up2: "[MIN_SIZE_INDEX..<32] = 9 # [10..<31] @ [31]"
    by (simp add: MIN_SIZE_INDEX_def upt_conv_Cons del: upt_rec_numeral)
  have sb: "buckets (emitted init_state (size_loop_j ''sync_read_ind'' ''tank''
         ''vdev=\"root\"'' (replicate 31 0 @ [1]) 31 0 0 init_state))
      = (LeBytes 512, 0)
        # map (\<lambda>k. (LeBytes (le_bytes k),
                 sum_list (map unat (take (Suc k) (replicate 31 (0 :: 64 word) @ [1]))) mod 2 ^ 52))
            [10..<31]
        @ [(LeBytes (- 2147483648), 1), (LeInf, 1)]"
    using size_buckets [OF ne2 fits, of init_state "''sync_read_ind''", unfolded len2 up2]
    by (simp add: le_bytes_def sum_list_replicate del: upt_rec_numeral)
  have 2: "(LeBytes 512, 0) \<in> set (buckets (emitted init_state (size_loop_j ''sync_read_ind'' ''tank''
         ''vdev=\"root\"'' (replicate 31 0 @ [1]) 31 0 0 init_state)))
   \<and> (LeBytes (- 2147483648), 1) \<in> set (buckets (emitted init_state (size_loop_j ''sync_read_ind''
         ''tank'' ''vdev=\"root\"'' (replicate 31 0 @ [1]) 31 0 0 init_state)))"
    by (simp only: sb) simp
  have 3: "\<not> sorted_wrt le_less (map fst (buckets (emitted init_state (size_loop_j ''sync_read_ind''
         ''tank'' ''vdev=\"root\"'' (replicate 31 0 @ [1]) 31 0 0 init_state))))"
    by (simp only: sb) (simp add: sorted_wrt_append del: upt_rec_numeral)
  have len3: "length [1 :: 64 word] - 1 = 0" by simp
  have 4: "inf_values (emitted init_state (latency_loop_j ''vdev_tot_r_lat_histo'' (replicate 240 CHR ''a'')
         (''vdev=\"root/disk-0\",path=\"/'' @ replicate 240 CHR ''b'' @ ''\"'') [1] 0 0 0 init_state)) = []"
    using latency_emitted [of "[1]" init_state "''vdev_tot_r_lat_histo''" "replicate 240 CHR ''a''"
        "''vdev=\"root/disk-0\",path=\"/'' @ replicate 240 CHR ''b'' @ ''\"''", unfolded len3]
    by (simp add: latency_lines_def snprintf_le_def inf_values_def buckets_Cons)
  have len4: "length (replicate 64 (0 :: 64 word) @ [1, 0]) - 1 = 65"
    by simp
  have ne4: "replicate 64 (0 :: 64 word) @ [1, 0] \<noteq> []"
    by simp
  have up4: "[MIN_LAT_INDEX..<65] = 10 # [11..<64] @ [64]"
    by (simp add: MIN_LAT_INDEX_def upt_conv_Cons del: upt_rec_numeral)
  have lb: "buckets (emitted init_state (latency_loop_j ''vdev_tot_r_lat_histo'' ''tank''
         ''vdev=\"root\"'' (replicate 64 0 @ [1, 0]) 65 0 0 init_state))
      = (LeSeconds 1, 0)
        # map (\<lambda>k. (LeSeconds (le_seconds k),
                 sum_list (map unat (take (Suc k) (replicate 64 (0 :: 64 word) @ [1, 0]))) mod 2 ^ 52))
            [11..<64]
        @ [(LeSeconds 0, 1), (LeInf, 1)]"
    using latency_buckets [OF ne4 fits, of init_state "''vdev_tot_r_lat_histo''", unfolded len4 up4]
    by (simp add: le_seconds_def sum_list_replicate del: upt_rec_numeral)
  have 5: "(LeSeconds 1, 0) \<in> set (buckets (emitted init_state (latency_loop_j ''vdev_tot_r_lat_histo''
         ''tank'' ''vdev=\"root\"'' (replicate 64 0 @ [1, 0]) 65 0 0 init_state)))
   \<and> (LeSeconds 0, 1) \<in> set (buckets (emitted init_state (latency_loop_j ''vdev_tot_r_lat_histo''
         ''tank'' ''vdev=\"root\"'' (replicate 64 0 @ [1, 0]) 65 0 0 init_state)))"
    by (simp only: lb) simp
  from 1 2 3 4 5 show ?thesis
    by simp
qed

text \<open>
  C3. The latency loop prints a bucket line with a finite bound exactly for the indices from
  \<open>MIN_LAT_INDEX\<close> up to, and not including, the final index (lemma \<open>latency_buckets\<close>).
  The request size loop tests \<open>j <= end\<close> where the latency loop tests \<open>j < end\<close>, and
  prints a bucket line with a finite bound for the final index as well (lemma
  \<open>size_buckets\<close>): for an array of ten counts, whose final index is 9, it prints the
  line for \<open>le = 1 << 9\<close>, which is 512, before the \<open>+Inf\<close> line.
\<close>

theorem size_bucket_at_final_index:
  "buckets (emitted init_state (size_loop_j ''sync_read_ind'' ''tank'' ''vdev=\"root\"''
      [0, 0, 0, 0, 0, 0, 0, 0, 0, 1] 9 0 0 init_state)) = [(LeBytes 512, 1), (LeInf, 1)]"
proof -
  have len: "length [0, 0, 0, 0, 0, 0, 0, 0, 0, 1 :: 64 word] - 1 = 9"
    "length [0, 0, 0, 0, 0, 0, 0, 0, 0, 1 :: 64 word] = 10"
    by simp_all
  have up: "[MIN_SIZE_INDEX..<10] = [9]"
    by (simp add: MIN_SIZE_INDEX_def upt_conv_Cons)
  have fits: "length ''tank'' + length ''vdev=\"root\"'' \<le> 480"
    by simp
  show ?thesis
    using size_buckets [OF _ fits, of "[0, 0, 0, 0, 0, 0, 0, 0, 0, 1]" init_state
      "''sync_read_ind''", unfolded len up]
    by (simp add: le_bytes_def)
qed


section \<open>The lines at the final index\<close>

lemma last3_append: "last3 (xs @ [a, b, c]) = [a, b, c]"
  by (simp add: last3_def)

lemma cumulative_word:
  "sum_list (ws :: 64 word list) AND mask 52 = word_of_nat (sum_list (map unat ws) mod 2 ^ 52)"
proof -
  have "(2 :: nat) ^ 52 dvd 2 ^ 64"
    by (rule le_imp_power_dvd) simp
  then have "sum_list (map unat ws) mod 2 ^ 64 mod 2 ^ 52 = sum_list (map unat ws) mod 2 ^ 52"
    by (rule mod_mod_cancel)
  then show ?thesis
    by (simp only: and_mask52 unat_sum_list)
qed

text \<open>
  C9 (as amended). For every histogram encoded from a non-empty array, by either histogram
  loop, when the text \<open>name="<pool>",<vdev>,le="+Inf"\<close> of the last bucket label has
  fewer than 512 characters, the size of the label buffer: the last three lines printed
  are, in this order, the \<open>le="+Inf"\<close> bucket line, carrying the sum of all entries
  modulo \<open>2^52\<close>; the \<open>_sum\<close> line, whose value is 0; the \<open>_count\<close> line, carrying
  the value of the \<open>+Inf\<close> line.
\<close>

theorem histogram_final_lines:
  assumes "a \<noteq> []"
    and "length (''name=\"'' @ pool_name @ ''\",'' @ vdev_desc @ '',le=\"+Inf\"'') < 512"
  shows "last3 (emitted st (latency_loop_j name pool_name vdev_desc a (length a - 1) 0 0 st)) =
      [SampleU64 (snprintf 200 (''zpool_latency_'' @ snprintf 512 (name @ ''_seconds_bucket'')))
         (Some (LE (''name=\"'' @ pool_name @ ''\",'' @ vdev_desc) LeInf))
         (word_of_nat (sum_list (map unat a) mod 2 ^ 52)),
       SampleU64 (snprintf 200 (''zpool_latency_'' @ snprintf 512 (name @ ''_seconds_sum'')))
         (Some (L (snprintf 512 (''name=\"'' @ pool_name @ ''\",'' @ vdev_desc)))) 0,
       SampleU64 (snprintf 200 (''zpool_latency_'' @ snprintf 512 (name @ ''_seconds_count'')))
         (Some (L (snprintf 512 (''name=\"'' @ pool_name @ ''\",'' @ vdev_desc))))
         (word_of_nat (sum_list (map unat a) mod 2 ^ 52))]
    \<and> last3 (emitted st (size_loop_j name pool_name vdev_desc a (length a - 1) 0 0 st)) =
      [SampleU64 (snprintf 200 (''zpool_req_'' @ snprintf 512 (name @ ''_bytes_bucket'')))
         (Some (LE (''name=\"'' @ pool_name @ ''\",'' @ vdev_desc) LeInf))
         (word_of_nat (sum_list (map unat a) mod 2 ^ 52)),
       SampleU64 (snprintf 200 (''zpool_req_'' @ snprintf 512 (name @ ''_bytes_sum'')))
         (Some (L (snprintf 512 (''name=\"'' @ pool_name @ ''\",'' @ vdev_desc)))) 0,
       SampleU64 (snprintf 200 (''zpool_req_'' @ snprintf 512 (name @ ''_bytes_count'')))
         (Some (L (snprintf 512 (''name=\"'' @ pool_name @ ''\",'' @ vdev_desc))))
         (word_of_nat (sum_list (map unat a) mod 2 ^ 52))]"
proof -
  note inf = inf_label_fits [OF assms(2)]
  have lat: "latency_lines name pool_name vdev_desc e e w =
      [SampleU64 (snprintf 200 (''zpool_latency_'' @ snprintf 512 (name @ ''_seconds_bucket'')))
         (Some (LE (''name=\"'' @ pool_name @ ''\",'' @ vdev_desc) LeInf)) (w AND mask 52),
       SampleU64 (snprintf 200 (''zpool_latency_'' @ snprintf 512 (name @ ''_seconds_sum'')))
         (Some (L (snprintf 512 (''name=\"'' @ pool_name @ ''\",'' @ vdev_desc)))) 0,
       SampleU64 (snprintf 200 (''zpool_latency_'' @ snprintf 512 (name @ ''_seconds_count'')))
         (Some (L (snprintf 512 (''name=\"'' @ pool_name @ ''\",'' @ vdev_desc)))) (w AND mask 52)]"
    for e w
    by (simp only: latency_lines_def inf) (simp add: POOL_LATENCY_MEASUREMENT_def)
  have sz: "\<exists>pre. size_lines name pool_name vdev_desc e e w = pre @
      [SampleU64 (snprintf 200 (''zpool_req_'' @ snprintf 512 (name @ ''_bytes_bucket'')))
         (Some (LE (''name=\"'' @ pool_name @ ''\",'' @ vdev_desc) LeInf)) (w AND mask 52),
       SampleU64 (snprintf 200 (''zpool_req_'' @ snprintf 512 (name @ ''_bytes_sum'')))
         (Some (L (snprintf 512 (''name=\"'' @ pool_name @ ''\",'' @ vdev_desc)))) 0,
       SampleU64 (snprintf 200 (''zpool_req_'' @ snprintf 512 (name @ ''_bytes_count'')))
         (Some (L (snprintf 512 (''name=\"'' @ pool_name @ ''\",'' @ vdev_desc)))) (w AND mask 52)]"
    for e w
    by (simp only: size_lines_def inf) (simp add: POOL_IO_SIZE_MEASUREMENT_def)
  have 1: "last3 (emitted st (latency_loop_j name pool_name vdev_desc a (length a - 1) 0 0 st)) =
      [SampleU64 (snprintf 200 (''zpool_latency_'' @ snprintf 512 (name @ ''_seconds_bucket'')))
         (Some (LE (''name=\"'' @ pool_name @ ''\",'' @ vdev_desc) LeInf))
         (sum_list a AND mask 52),
       SampleU64 (snprintf 200 (''zpool_latency_'' @ snprintf 512 (name @ ''_seconds_sum'')))
         (Some (L (snprintf 512 (''name=\"'' @ pool_name @ ''\",'' @ vdev_desc)))) 0,
       SampleU64 (snprintf 200 (''zpool_latency_'' @ snprintf 512 (name @ ''_seconds_count'')))
         (Some (L (snprintf 512 (''name=\"'' @ pool_name @ ''\",'' @ vdev_desc))))
         (sum_list a AND mask 52)]"
    by (simp only: latency_emitted [OF assms(1)] lat last3_append)
  obtain pre where pre: "size_lines name pool_name vdev_desc (length a - 1) (length a - 1) (sum_list a) = pre @
      [SampleU64 (snprintf 200 (''zpool_req_'' @ snprintf 512 (name @ ''_bytes_bucket'')))
         (Some (LE (''name=\"'' @ pool_name @ ''\",'' @ vdev_desc) LeInf)) (sum_list a AND mask 52),
       SampleU64 (snprintf 200 (''zpool_req_'' @ snprintf 512 (name @ ''_bytes_sum'')))
         (Some (L (snprintf 512 (''name=\"'' @ pool_name @ ''\",'' @ vdev_desc)))) 0,
       SampleU64 (snprintf 200 (''zpool_req_'' @ snprintf 512 (name @ ''_bytes_count'')))
         (Some (L (snprintf 512 (''name=\"'' @ pool_name @ ''\",'' @ vdev_desc)))) (sum_list a AND mask 52)]"
    using sz by blast
  have 2: "last3 (emitted st (size_loop_j name pool_name vdev_desc a (length a - 1) 0 0 st)) =
      [SampleU64 (snprintf 200 (''zpool_req_'' @ snprintf 512 (name @ ''_bytes_bucket'')))
         (Some (LE (''name=\"'' @ pool_name @ ''\",'' @ vdev_desc) LeInf)) (sum_list a AND mask 52),
       SampleU64 (snprintf 200 (''zpool_req_'' @ snprintf 512 (name @ ''_bytes_sum'')))
         (Some (L (snprintf 512 (''name=\"'' @ pool_name @ ''\",'' @ vdev_desc)))) 0,
       SampleU64 (snprintf 200 (''zpool_req_'' @ snprintf 512 (name @ ''_bytes_count'')))
         (Some (L (snprintf 512 (''name=\"'' @ pool_name @ ''\",'' @ vdev_desc)))) (sum_list a AND mask 52)]"
    by (simp only: size_emitted [OF assms(1)] pre append_assoc [symmetric] last3_append)
  from 1 2 show ?thesis
    by (simp only: cumulative_word)
qed

text \<open>The theorem at the array of the two counts 3 and 4.\<close>

theorem histogram_final_lines_witness:
  "[3, 4 :: 64 word] \<noteq> []
   \<and> length (''name=\"'' @ ''tank'' @ ''\",'' @ ''vdev=\"root\"'' @ '',le=\"+Inf\"'') < 512
   \<and> last3 (emitted init_state
         (latency_loop_j ''vdev_tot_r_lat_histo'' ''tank'' ''vdev=\"root\"'' [3, 4] 1 0 0 init_state))
       = [SampleU64 ''zpool_latency_vdev_tot_r_lat_histo_seconds_bucket''
            (Some (LE ''name=\"tank\",vdev=\"root\"'' LeInf)) 7,
          SampleU64 ''zpool_latency_vdev_tot_r_lat_histo_seconds_sum''
            (Some (L ''name=\"tank\",vdev=\"root\"'')) 0,
          SampleU64 ''zpool_latency_vdev_tot_r_lat_histo_seconds_count''
            (Some (L ''name=\"tank\",vdev=\"root\"'')) 7]"
proof -
  have len: "length [3, 4 :: 64 word] - 1 = 1" by simp
  have ne: "[3, 4 :: 64 word] \<noteq> []" by simp
  have fits: "length (''name=\"'' @ ''tank'' @ ''\",'' @ ''vdev=\"root\"'' @ '',le=\"+Inf\"'') < 512"
    by simp
  show ?thesis
    using histogram_final_lines [OF ne fits, of init_state "''vdev_tot_r_lat_histo''", unfolded len]
    by (simp add: snprintf_def)
qed

text \<open>
  The \<open>+Inf\<close> line does not carry the full sum when that reaches \<open>2^52\<close>: for the single
  count \<open>2^52\<close> the three lines printed, the \<open>+Inf\<close> line first, all carry 0. And with a
  pool name of 240 characters and a device path of as many, the label of the first of the
  three lines is cut after 511 characters and has no \<open>le="+Inf"\<close>: none of the lines
  printed is a bucket line.
\<close>

theorem histogram_final_lines_counterexample:
  "sum_list (map unat [2 ^ 52 :: 64 word]) = 2 ^ 52
   \<and> map sample_value (emitted init_state
         (latency_loop_j ''vdev_tot_r_lat_histo'' ''tank'' ''vdev=\"root\"'' [2 ^ 52] 0 0 0 init_state))
       = [Some 0, Some 0, Some 0]
   \<and> buckets (emitted init_state
         (latency_loop_j ''vdev_tot_r_lat_histo'' ''tank'' ''vdev=\"root\"'' [2 ^ 52] 0 0 0 init_state))
       = [(LeInf, 0)]
   \<and> map sample_value (emitted init_state
         (latency_loop_j ''vdev_tot_r_lat_histo'' (replicate 240 CHR ''a'')
            (''vdev=\"root/disk-0\",path=\"/'' @ replicate 240 CHR ''b'' @ ''\"'') [1] 0 0 0 init_state))
       = [Some 1, Some 0, Some 1]
   \<and> buckets (emitted init_state
         (latency_loop_j ''vdev_tot_r_lat_histo'' (replicate 240 CHR ''a'')
            (''vdev=\"root/disk-0\",path=\"/'' @ replicate 240 CHR ''b'' @ ''\"'') [1] 0 0 0 init_state))
       = []"
proof -
  have len: "length [2 ^ 52 :: 64 word] - 1 = 0" "length [1 :: 64 word] - 1 = 0" by simp_all
  have 1: "map sample_value (emitted init_state
         (latency_loop_j ''vdev_tot_r_lat_histo'' ''tank'' ''vdev=\"root\"'' [2 ^ 52] 0 0 0 init_state))
       = [Some 0, Some 0, Some 0]
   \<and> buckets (emitted init_state
         (latency_loop_j ''vdev_tot_r_lat_histo'' ''tank'' ''vdev=\"root\"'' [2 ^ 52] 0 0 0 init_state))
       = [(LeInf, 0)]"
    using latency_emitted [of "[2 ^ 52]" init_state "''vdev_tot_r_lat_histo''" "''tank''"
        "''vdev=\"root\"''", unfolded len]
    by (simp add: latency_lines_def snprintf_le_def buckets_Cons mask_eq_exp_minus_1)
  have 2: "map sample_value (emitted init_state
         (latency_loop_j ''vdev_tot_r_lat_histo'' (replicate 240 CHR ''a'')
            (''vdev=\"root/disk-0\",path=\"/'' @ replicate 240 CHR ''b'' @ ''\"'') [1] 0 0 0 init_state))
       = [Some 1, Some 0, Some 1]
   \<and> buckets (emitted init_state
         (latency_loop_j ''vdev_tot_r_lat_histo'' (replicate 240 CHR ''a'')
            (''vdev=\"root/disk-0\",path=\"/'' @ replicate 240 CHR ''b'' @ ''\"'') [1] 0 0 0 init_state))
       = []"
    using latency_emitted [of "[1]" init_state "''vdev_tot_r_lat_histo''" "replicate 240 CHR ''a''"
        "''vdev=\"root/disk-0\",path=\"/'' @ replicate 240 CHR ''b'' @ ''\"''", unfolded len]
    by (simp add: latency_lines_def snprintf_le_def buckets_Cons mask_eq_exp_minus_1)
  from 1 2 show ?thesis
    by simp
qed


section \<open>The scan status encoder\<close>

lemma u64_samples_simps [simp]:
  "u64_samples nm [] = []"
  "u64_samples nm (xs @ ys) = u64_samples nm xs @ u64_samples nm ys"
  "u64_samples nm [SampleU64 n l w] = (if n = nm then [unat w] else [])"
  "u64_samples nm [SampleD n l d] = []"
  "u64_samples nm [Help n t] = []"
  "u64_samples nm [Type n t] = []"
  "u64_samples nm [Comment t] = []"
  by (simp_all add: u64_samples_def map_filter_def)

lemma d_samples_simps [simp]:
  "d_samples nm [] = []"
  "d_samples nm (xs @ ys) = d_samples nm xs @ d_samples nm ys"
  "d_samples nm [SampleD n l d] = (if n = nm then [d] else [])"
  "d_samples nm [SampleU64 n l w] = []"
  "d_samples nm [Help n t] = []"
  "d_samples nm [Type n t] = []"
  "d_samples nm [Comment t] = []"
  by (simp_all add: d_samples_def map_filter_def)

lemma out_print_help_type:
  "out (print_help_type n h t st) =
     out st @ (if n \<in> set (metric_names st) then []
               else (case h of None \<Rightarrow> [] | Some x \<Rightarrow> [Help n x])
                  @ (case t of None \<Rightarrow> [] | Some x \<Rightarrow> [Type n x]))"
  by (simp add: print_help_type_def printf_def Let_def split: option.splits)

lemma u64_samples_print_help_type [simp]:
  "u64_samples nm (out (print_help_type n h t st)) = u64_samples nm (out st)"
  by (simp add: out_print_help_type split: option.splits)

lemma d_samples_print_help_type [simp]:
  "d_samples nm (out (print_help_type n h t st)) = d_samples nm (out st)"
  by (simp add: out_print_help_type split: option.splits)

lemma out_print_prom_d:
  "out (print_prom_d p m l v h t st) =
     out (print_help_type (snprintf 200 (p @ ''_'' @ m)) h t st)
       @ [SampleD (snprintf 200 (p @ ''_'' @ m)) l v]"
  by (simp add: print_prom_d_def Let_def printf_def)

lemma u64_samples_print_prom_u64 [simp]:
  "u64_samples nm (out (print_prom_u64 p m l v h t st)) =
     u64_samples nm (out st) @ (if snprintf 200 (p @ ''_'' @ m) = nm then [unat v mod 2 ^ 52] else [])"
  by (simp add: out_print_prom_u64 unat_and_mask52)

lemma u64_samples_print_prom_d [simp]:
  "u64_samples nm (out (print_prom_d p m l v h t st)) = u64_samples nm (out st)"
  by (simp add: out_print_prom_d)

lemma d_samples_print_prom_u64 [simp]:
  "d_samples nm (out (print_prom_u64 p m l v h t st)) = d_samples nm (out st)"
  by (simp add: out_print_prom_u64)

lemma d_samples_print_prom_d [simp]:
  "d_samples nm (out (print_prom_d p m l v h t st)) =
     d_samples nm (out st) @ (if snprintf 200 (p @ ''_'' @ m) = nm then [v] else [])"
  by (simp add: out_print_prom_d)

lemma state_Some: "i < DSS_NUM_STATES h \<Longrightarrow> \<exists>s. state h i = Some s"
  by (simp add: state_def)

text \<open>
  C10. When the scan statistics are present with a state code of \<open>DSS_NUM_STATES\<close> or more,
  or a function code of \<open>POOL_SCAN_FUNCS\<close> or more, \<open>print_scan_status\<close> returns 0 and
  leaves the output, the registry and stderr as they were, as it does when the scan
  statistics are absent. On no input does it read the table of state names outside its
  bounds (the result \<open>None\<close> of the model).
\<close>

theorem scan_status_bogus_state_ignored:
  assumes "DSS_NUM_STATES h \<le> unat (pss_state ps) \<or> POOL_SCAN_FUNCS h \<le> unat (pss_func ps)"
  shows "print_scan_status h (Nvlist ty ident path vs ex (Some ps) children) pool_name st = Some (0, st)
       \<and> print_scan_status h (Nvlist ty ident path vs ex None children) pool_name st = Some (0, st)
       \<and> print_scan_status h nvroot pool_name st \<noteq> None"
proof -
  have "print_scan_status h nvroot pool_name st \<noteq> None"
  proof (cases "CONFIG_SCAN_STATS nvroot")
    case None
    then show ?thesis by (simp add: print_scan_status_def)
  next
    case (Some ps')
    show ?thesis
    proof (cases "DSS_NUM_STATES h \<le> unat (pss_state ps') \<or> POOL_SCAN_FUNCS h \<le> unat (pss_func ps')")
      case True
      with Some show ?thesis by (simp add: print_scan_status_def)
    next
      case False
      then obtain s where "state h (unat (pss_state ps')) = Some s"
        using state_Some [of "unat (pss_state ps')" h] by auto
      with Some False show ?thesis
        by (cases "pss_state ps' = DSS_SCANNING")
           (simp_all add: print_scan_status_def Let_def split del: if_split)
    qed
  qed
  with assms show ?thesis
    by (simp add: print_scan_status_def)
qed


text \<open>The theorem at scan statistics with the state code 7, four states being defined.\<close>

theorem scan_status_bogus_state_ignored_witness:
  "(DSS_NUM_STATES example_env \<le> unat (pss_state bogus_scan)
      \<or> POOL_SCAN_FUNCS example_env \<le> unat (pss_func bogus_scan))
   \<and> print_scan_status example_env (scan_nvroot bogus_scan) ''tank'' init_state = Some (0, init_state)"
proof -
  have b: "DSS_NUM_STATES example_env \<le> unat (pss_state bogus_scan)
      \<or> POOL_SCAN_FUNCS example_env \<le> unat (pss_func bogus_scan)"
    by (simp add: bogus_scan_def example_env_def)
  show ?thesis
    using b scan_status_bogus_state_ignored [OF b, of "Some ''root''" "Some 0" None None None None
        "''tank''" init_state]
    by (simp add: scan_nvroot_def)
qed

lemma scan_status_ratios:
  assumes "unat (pss_state ps) < DSS_NUM_STATES h" and "unat (pss_func ps) < POOL_SCAN_FUNCS h"
  shows "returned (print_scan_status h (Nvlist ty ident path vs ex (Some ps) children) pool_name st) = Some 0
    \<and> d_samples ''zpool_scan_stats_percent_examined_done_ratio''
        (printed (print_scan_status h (Nvlist ty ident path vs ex (Some ps) children) pool_name st))
      = d_samples ''zpool_scan_stats_percent_examined_done_ratio'' (out st)
        @ [if 0 < pss_to_examine ps
           then DDiv (DMul (DLit 100) (DOfU64 (pss_examined ps))) (DOfU64 (pss_to_examine ps))
           else DLit 0]
    \<and> d_samples ''zpool_scan_stats_percent_issued_done_ratio''
        (printed (print_scan_status h (Nvlist ty ident path vs ex (Some ps) children) pool_name st))
      = d_samples ''zpool_scan_stats_percent_issued_done_ratio'' (out st)
        @ [DDiv (DMul (DLit 100) (DOfU64 (pss_issued ps))) (DOfU64 (pss_to_examine ps))]"
proof -
  obtain s where s: "state h (unat (pss_state ps)) = Some s"
    using state_Some [OF assms(1)] by blast
  show ?thesis
    using assms s
    by (cases "pss_state ps = DSS_SCANNING")
       (simp_all add: print_scan_status_def Let_def returned_def printed_def
          SCAN_MEASUREMENT_def snprintf_def split del: if_split)
qed

text \<open>
  C5. The ratio of bytes examined is \<open>100 * examined / to_examine\<close> when \<open>to_examine\<close> is
  positive and 0 otherwise (lemma \<open>scan_status_ratios\<close>). The ratio of bytes issued is
  computed by the statement after the \<open>if\<close>, which the \<open>if\<close> does not guard: for a
  scan with nothing to examine the encoder prints \<open>100.0 * 0 / 0\<close>, a division by zero,
  where the claim says 0.
\<close>

theorem issued_ratio_divides_by_zero:
  "d_samples ''zpool_scan_stats_percent_issued_done_ratio''
     (printed (print_scan_status example_env (scan_nvroot empty_pool_scan) ''tank'' init_state))
     = [DDiv (DMul (DLit 100) (DOfU64 0)) (DOfU64 0)]
   \<and> dval (DDiv (DMul (DLit 100) (DOfU64 0)) (DOfU64 0)) = None
   \<and> d_samples ''zpool_scan_stats_percent_examined_done_ratio''
     (printed (print_scan_status example_env (scan_nvroot empty_pool_scan) ''tank'' init_state))
     = [DLit 0]"
proof -
  have v: "unat (pss_state empty_pool_scan) < DSS_NUM_STATES example_env"
    "unat (pss_func empty_pool_scan) < POOL_SCAN_FUNCS example_env"
    by (simp_all add: empty_pool_scan_def example_env_def)
  show ?thesis
    using scan_status_ratios [OF v, of "Some ''root''" "Some 0" None None None None "''tank''" init_state]
    by (simp add: scan_nvroot_def) (simp add: empty_pool_scan_def init_state_def)
qed


lemma scan_status_rate_samples:
  assumes "unat (pss_state ps) < DSS_NUM_STATES h" and "unat (pss_func ps) < POOL_SCAN_FUNCS h"
  shows "returned (print_scan_status h (Nvlist ty ident path vs ex (Some ps) children) pool_name st) = Some 0
    \<and> u64_samples ''zpool_scan_stats_issued_bytes_per_second''
        (printed (print_scan_status h (Nvlist ty ident path vs ex (Some ps) children) pool_name st))
      = u64_samples ''zpool_scan_stats_issued_bytes_per_second'' (out st)
        @ [unat (if pss_state ps = DSS_SCANNING
                 then let elapsed = time_now h - pss_pass_start ps
                            - (if EZFS_SCRUB_PAUSED h then pss_pass_scrub_spent_paused ps else 0);
                          elapsed = (if 0 < sint elapsed then elapsed else 1);
                          issue_rate = pss_pass_issued ps div elapsed
                      in if issue_rate \<noteq> 0 then issue_rate else 1
                 else 1) mod 2 ^ 52]
    \<and> u64_samples ''zpool_scan_stats_examined_bytes_per_second''
        (printed (print_scan_status h (Nvlist ty ident path vs ex (Some ps) children) pool_name st))
      = u64_samples ''zpool_scan_stats_examined_bytes_per_second'' (out st)
        @ [unat (if pss_state ps = DSS_SCANNING
                 then let elapsed = time_now h - pss_pass_start ps
                            - (if EZFS_SCRUB_PAUSED h then pss_pass_scrub_spent_paused ps else 0);
                          elapsed = (if 0 < sint elapsed then elapsed else 1);
                          scan_rate = pass_scanned_indeterminate h div elapsed
                      in if scan_rate \<noteq> 0 then scan_rate else 1
                 else 1) mod 2 ^ 52]"
proof -
  obtain s where s: "state h (unat (pss_state ps)) = Some s"
    using state_Some [OF assms(1)] by blast
  show ?thesis
    using assms s
    by (cases "pss_state ps = DSS_SCANNING")
       (simp_all add: print_scan_status_def Let_def returned_def printed_def
          SCAN_MEASUREMENT_def snprintf_def split del: if_split)
qed


text \<open>
  The examine rate while scanning. The code divides \<open>pass_scanned\<close> by the elapsed
  time, and no statement assigns that variable: \<open>pss_pass_exam\<close>, the bytes examined in
  the pass, is never read. What is printed follows whatever the variable holds. For the
  running scrub of the examples, which has examined 3000 bytes in the 100 seconds of its
  pass, the rate printed is 1 when the variable holds 0 and 7000 when it holds 700000.
\<close>

lemma examine_rate_of_unassigned_variable:
  "pss_pass_exam running_scan = 3000
   \<and> u64_samples ''zpool_scan_stats_examined_bytes_per_second''
        (printed (print_scan_status (example_env\<lparr>pass_scanned_indeterminate := 0\<rparr>)
           (scan_nvroot running_scan) ''tank'' init_state)) = [1]
   \<and> u64_samples ''zpool_scan_stats_examined_bytes_per_second''
        (printed (print_scan_status (example_env\<lparr>pass_scanned_indeterminate := 700000\<rparr>)
           (scan_nvroot running_scan) ''tank'' init_state)) = [7000]"
proof -
  have v: "unat (pss_state running_scan) < DSS_NUM_STATES (example_env\<lparr>pass_scanned_indeterminate := w\<rparr>)"
    "unat (pss_func running_scan) < POOL_SCAN_FUNCS (example_env\<lparr>pass_scanned_indeterminate := w\<rparr>)"
    for w
    by (simp_all add: running_scan_def example_env_def)
  show ?thesis
    using scan_status_rate_samples [OF v, of 0 "Some ''root''" "Some 0" None None None None "''tank''" init_state]
      scan_status_rate_samples [OF v, of 700000 "Some ''root''" "Some 0" None None None None "''tank''" init_state]
    by (simp add: scan_nvroot_def)
       (simp add: running_scan_def init_state_def example_env_def DSS_SCANNING_def)
qed





section \<open>Label values\<close>

lemma unescaped_plain:
  "c \<noteq> CHR ''\"'' \<Longrightarrow> c \<noteq> CHR 0x5C \<Longrightarrow> unescaped (c # s) = unescaped s"
  by (cases s) simp_all

lemma escape_string_escapes: "\<not> unescaped (escape_string s)"
  by (induction s rule: escape_string.induct) (simp_all add: unescaped_plain)

lemma escape_string_weird_pool:
  "''name=\"'' @ escape_string ''weird\"pool'' @ ''\"'' = ''name=\"weird'' @ [CHR 0x5C] @ ''\"pool\"''"
  by simp

lemma sample_labels_simps [simp]:
  "sample_labels [] = []"
  "sample_labels (xs @ ys) = sample_labels xs @ sample_labels ys"
  "sample_labels [SampleU64 n (Some l) w] = [l]"
  "sample_labels [SampleD n (Some l) d] = [l]"
  "sample_labels [Help n t] = []"
  "sample_labels [Type n t] = []"
  "sample_labels [Comment t] = []"
  by (simp_all add: sample_labels_def map_filter_def)

lemma sample_labels_print_prom_u64 [simp]:
  "sample_labels (out (print_prom_u64 p m (Some l) v h t st)) = sample_labels (out st) @ [l]"
  by (simp add: out_print_prom_u64 out_print_help_type split: option.splits)

lemma replicate_13: "replicate 13 x = [x, x, x, x, x, x, x, x, x, x, x, x, x]"
  by (simp add: numeral_eq_Suc)

lemma summary_labels:
  assumes "CONFIG_VDEV_STATS nvroot = Some vs"
  shows "sample_labels (printed (print_summary_stats h nvroot pool_name parent_name st))
     = sample_labels (out st) @ replicate 13 (L (snprintf 512
          (''name=\"'' @ pool_name @ ''\",state=\"'' @ zpool_state_to_name h (vs_state vs) (vs_aux vs)
             @ ''\",'' @ get_vdev_desc nvroot parent_name)))"
  using assms
  by (simp add: print_summary_stats_def printed_def Let_def ZFS_MAX_DATASET_NAME_LEN_def replicate_13)

text \<open>
  C8. \<open>escape_string\<close> puts a backslash before every double quote and backslash (lemma
  \<open>escape_string_escapes\<close>), and the pool named \<open>weird"pool\<close> gives the label fragment
  of the claim (lemma \<open>escape_string_weird_pool\<close>); \<open>print_stats\<close> applies it to the pool
  name only. \<open>get_vdev_desc\<close> copies the device path into the label as it is: for the
  path \<open>/dev/a"b\<close> the label of every sample line that \<open>print_summary_stats\<close> prints for
  the vdev has the double quote of the path with no backslash before it.
\<close>

theorem device_path_not_escaped:
  "get_vdev_desc (Nvlist (Some ''disk'') (Some 0) (Some ''/dev/a\"b'') (Some example_vdev_stat)
       None None None) (Some ''root'')
     = ''vdev=\"root/disk-0\",path=\"/dev/a\"b\"''
   \<and> unescaped ''/dev/a\"b''
   \<and> set (sample_labels (printed (print_summary_stats example_env
          (Nvlist (Some ''disk'') (Some 0) (Some ''/dev/a\"b'') (Some example_vdev_stat)
             None None None) ''tank'' (Some ''root'') init_state)))
     = {L ''name=\"tank\",state=\"ONLINE\",vdev=\"root/disk-0\",path=\"/dev/a\"b\"''}"
proof -
  have d: "get_vdev_desc (Nvlist (Some ''disk'') (Some 0) (Some ''/dev/a\"b'') (Some example_vdev_stat)
       None None None) (Some ''root'')
     = ''vdev=\"root/disk-0\",path=\"/dev/a\"b\"''"
    by (simp add: get_vdev_desc_def snprintf_def decimal_digit)
  have n: "zpool_state_to_name example_env s a = ''ONLINE''" for s a
    by (simp add: example_env_def)
  have l: "snprintf 512 (''name=\"'' @ ''tank'' @ ''\",state=\"'' @ ''ONLINE'' @ ''\",''
              @ ''vdev=\"root/disk-0\",path=\"/dev/a\"b\"'')
      = ''name=\"tank\",state=\"ONLINE\",vdev=\"root/disk-0\",path=\"/dev/a\"b\"''"
    by (simp add: snprintf_def)
  have "sample_labels (printed (print_summary_stats example_env
          (Nvlist (Some ''disk'') (Some 0) (Some ''/dev/a\"b'') (Some example_vdev_stat)
             None None None) ''tank'' (Some ''root'') init_state))
     = replicate 13 (L ''name=\"tank\",state=\"ONLINE\",vdev=\"root/disk-0\",path=\"/dev/a\"b\"'')"
    by (simp only: summary_labels [of _ example_vdev_stat] nvlist.sel d n l)
       (simp add: init_state_def)
  with d show ?thesis by simp
qed


section \<open>HELP and TYPE lines\<close>

lemma ext_refl [simp, intro]: "ext st st"
  by (simp add: ext_def)

lemma ext_trans: "ext a b \<Longrightarrow> ext b c \<Longrightarrow> ext a c"
  by (auto simp: ext_def)

lemma counts_append [simp]:
  "help_count n (xs @ ys) = help_count n xs + help_count n ys"
  "type_count n (xs @ ys) = type_count n xs + type_count n ys"
  by (simp_all add: help_count_def type_count_def)

lemma counts_single [simp]:
  "help_count n [Help m t] = (if m = n then 1 else 0)"
  "help_count n [Type m t] = 0"
  "help_count n [SampleU64 m l w] = 0"
  "help_count n [SampleD m l d] = 0"
  "help_count n [Comment t] = 0"
  "help_count n [] = 0"
  "type_count n [Type m t] = (if m = n then 1 else 0)"
  "type_count n [Help m t] = 0"
  "type_count n [SampleU64 m l w] = 0"
  "type_count n [SampleD m l d] = 0"
  "type_count n [Comment t] = 0"
  "type_count n [] = 0"
  by (simp_all add: help_count_def type_count_def)

lemma declared_once_init: "declared_once init_state"
  by (simp add: declared_once_def init_state_def)

lemma metric_names_print_help_type:
  "metric_names (print_help_type n h t st) =
     (if n \<in> set (metric_names st) then metric_names st else metric_names st @ [n])"
  by (simp add: print_help_type_def printf_def Let_def split: option.splits)

lemma ext_print_help_type: "ext st (print_help_type n h t st)"
  unfolding ext_def declared_once_def
  by (auto simp: out_print_help_type metric_names_print_help_type split: option.splits)

lemma plain_line:
  assumes "\<And>n. \<not> is_help n l" "\<And>n. \<not> is_type n l"
  shows "ext st (printf l st)"
  using assms by (simp add: ext_def declared_once_def printf_def help_count_def type_count_def)

lemma ext_fprintf_stderr: "ext st (fprintf_stderr msg st)"
  by (simp add: ext_def declared_once_def fprintf_stderr_def)

lemma ext_print_prom_u64: "ext st (print_prom_u64 p m l v h t st)"
proof -
  have "ext (print_help_type (snprintf 200 (p @ ''_'' @ m)) h t st)
          (print_prom_u64 p m l v h t st)"
    by (simp add: print_prom_u64_def Let_def plain_line)
  with ext_print_help_type show ?thesis by (rule ext_trans)
qed

lemma ext_print_prom_d: "ext st (print_prom_d p m l v h t st)"
proof -
  have "ext (print_help_type (snprintf 200 (p @ ''_'' @ m)) h t st)
          (print_prom_d p m l v h t st)"
    by (simp add: print_prom_d_def Let_def plain_line)
  with ext_print_help_type show ?thesis by (rule ext_trans)
qed

lemma ext_u64: "ext st st1 \<Longrightarrow> ext st (print_prom_u64 p m l v h t st1)"
  by (erule ext_trans) (rule ext_print_prom_u64)

lemma ext_d: "ext st st1 \<Longrightarrow> ext st (print_prom_d p m l v h t st1)"
  by (erule ext_trans) (rule ext_print_prom_d)

lemma ext_if: "(c \<Longrightarrow> ext st a) \<Longrightarrow> (\<not> c \<Longrightarrow> ext st b) \<Longrightarrow> ext st (if c then a else b)"
  by simp

lemma ext_latency_loop_j: "ext st (latency_loop_j name pool_name vdev_desc a end j sm st)"
proof (induction "Suc end - j" arbitrary: j sm st)
  case 0
  then show ?case by (subst latency_loop_j.simps) simp
next
  case (Suc n)
  then have n: "n = Suc end - Suc j" and j: "j \<le> end" by simp_all
  have step: "ext st (latency_loop_j name pool_name vdev_desc a end (Suc j) sm' X)"
    if "ext st X" for sm' X
    using that Suc.hyps(1) [OF n] by (rule ext_trans)
  show ?case
    apply (subst latency_loop_j.simps)
    apply (simp add: Let_def j split del: if_split cong: if_cong)
    apply (intro step ext_if ext_u64 ext_refl)
    done
qed

lemma ext_size_loop_j: "ext st (size_loop_j name pool_name vdev_desc a end j sm st)"
proof (induction "Suc end - j" arbitrary: j sm st)
  case 0
  then show ?case by (subst size_loop_j.simps) simp
next
  case (Suc n)
  then have n: "n = Suc end - Suc j" and j: "j \<le> end" by simp_all
  have step: "ext st (size_loop_j name pool_name vdev_desc a end (Suc j) sm' X)"
    if "ext st X" for sm' X
    using that Suc.hyps(1) [OF n] by (rule ext_trans)
  show ?case
    apply (subst size_loop_j.simps)
    apply (simp add: Let_def j split del: if_split cong: if_cong)
    apply (intro step ext_if ext_u64 ext_refl)
    done
qed

lemma ext_latency_loop_i:
  "latency_loop_i tbl nv_ex pool_name vdev_desc st = Some (rc, st') \<Longrightarrow> ext st st'"
proof (induction tbl arbitrary: st)
  case Nil
  then show ?case by simp
next
  case (Cons e tbl)
  obtain name short_name where e: "e = (name, short_name)" by (cases e)
  show ?case
  proof (cases "uint64_array nv_ex name")
    case None
    with Cons.prems show ?thesis by (auto simp: e ext_fprintf_stderr)
  next
    case (Some a)
    with Cons.prems have "a \<noteq> []" by (auto simp: e split: if_splits)
    with Cons.prems Some have
      "latency_loop_i tbl nv_ex pool_name vdev_desc
         (latency_loop_j name pool_name vdev_desc a (length a - 1) 0 0
            (print_help_type (snprintf (2 * ZFS_MAX_DATASET_NAME_LEN)
                (POOL_LATENCY_MEASUREMENT @ ''_'' @ name @ ''_seconds''))
               (Some ''latency distribution'') (Some ''histogram'') st)) = Some (rc, st')"
      by (simp add: e Let_def)
    from Cons.IH [OF this] show ?thesis
      by (rule ext_trans [OF ext_trans [OF ext_print_help_type ext_latency_loop_j]])
  qed
qed

lemma ext_size_loop_i:
  "size_loop_i tbl nv_ex pool_name vdev_desc st = Some (rc, st') \<Longrightarrow> ext st st'"
proof (induction tbl arbitrary: st)
  case Nil
  then show ?case by simp
next
  case (Cons e tbl)
  obtain name short_name where e: "e = (name, short_name)" by (cases e)
  show ?case
  proof (cases "uint64_array nv_ex name")
    case None
    with Cons.prems show ?thesis by (auto simp: e ext_fprintf_stderr)
  next
    case (Some a)
    with Cons.prems have "a \<noteq> []" by (auto simp: e split: if_splits)
    with Cons.prems Some have
      "size_loop_i tbl nv_ex pool_name vdev_desc
         (size_loop_j short_name pool_name vdev_desc a (length a - 1) 0 0
            (print_help_type (snprintf (2 * ZFS_MAX_DATASET_NAME_LEN)
                (POOL_IO_SIZE_MEASUREMENT @ ''_'' @ short_name @ ''_bytes''))
               (Some ''I/O request size distribution'') (Some ''histogram'') st)) = Some (rc, st')"
      by (simp add: e Let_def)
    from Cons.IH [OF this] show ?thesis
      by (rule ext_trans [OF ext_trans [OF ext_print_help_type ext_size_loop_j]])
  qed
qed

lemma ext_queue_loop_i: "ext st (snd (queue_loop_i tbl nv_ex s st))"
proof (induction tbl arbitrary: st)
  case Nil
  then show ?case by simp
next
  case (Cons e tbl)
  obtain name short_name where e: "e = (name, short_name)" by (cases e)
  show ?case
  proof (cases "uint64 nv_ex name")
    case None
    then show ?thesis by (simp add: e ext_fprintf_stderr)
  next
    case (Some v)
    then show ?thesis
      by (simp add: e) (rule ext_trans [OF ext_print_prom_u64 Cons.IH])
  qed
qed

lemma ext_print_vdev_latency_stats:
  "print_vdev_latency_stats h nvroot pool_name parent_name st = Some (rc, st') \<Longrightarrow> ext st st'"
  by (auto simp: print_vdev_latency_stats_def Let_def split: option.splits dest: ext_latency_loop_i)

lemma ext_print_vdev_size_stats:
  "print_vdev_size_stats h nvroot pool_name parent_name st = Some (rc, st') \<Longrightarrow> ext st st'"
  by (auto simp: print_vdev_size_stats_def Let_def split: option.splits dest: ext_size_loop_i)

lemma ext_print_queue_stats:
  "print_queue_stats nvroot pool_name parent_name st = Some (rc, st') \<Longrightarrow> ext st st'"
  by (auto simp: print_queue_stats_def Let_def split: option.splits)
     (metis ext_queue_loop_i snd_conv)

lemma ext_print_summary_stats:
  "print_summary_stats h nvroot pool_name parent_name st = Some (rc, st') \<Longrightarrow> ext st st'"
  apply (cases "CONFIG_VDEV_STATS nvroot")
   apply (simp add: print_summary_stats_def)
  apply (clarsimp simp: print_summary_stats_def Let_def)
  apply (intro ext_u64 ext_refl)
  done

lemma ext_print_scan_status:
  "print_scan_status h nvroot pool_name st = Some (rc, st') \<Longrightarrow> ext st st'"
  apply (cases "CONFIG_SCAN_STATS nvroot")
   apply (simp add: print_scan_status_def)
  subgoal for ps
    apply (cases "DSS_NUM_STATES h \<le> unat (pss_state ps) \<or> POOL_SCAN_FUNCS h \<le> unat (pss_func ps)")
     apply (simp add: print_scan_status_def)
    apply (cases "state h (unat (pss_state ps))")
     apply (cases "pss_state ps = DSS_SCANNING")
      apply (simp_all add: print_scan_status_def Let_def split del: if_split)[2]
    apply (cases "pss_state ps = DSS_SCANNING")
     apply (clarsimp simp: print_scan_status_def Let_def split del: if_split)
     apply (intro ext_u64 ext_d ext_refl)
    apply (clarsimp simp: print_scan_status_def Let_def split del: if_split)
    apply (intro ext_u64 ext_d ext_refl)
    done
  done


lemma fold_children_None:
  "fold (\<lambda>c r. case r of None \<Rightarrow> None | Some s \<Rightarrow> map_option snd (g c s)) cs None = None"
  by (induction cs) simp_all

lemma ext_fold_children:
  assumes "\<And>c s rc s'. c \<in> set cs \<Longrightarrow> g c s = Some (rc, s') \<Longrightarrow> ext s s'"
    and "fold (\<lambda>c r. case r of None \<Rightarrow> None | Some s \<Rightarrow> map_option snd (g c s)) cs (Some st) = Some st'"
  shows "ext st st'"
  using assms
proof (induction cs arbitrary: st)
  case Nil
  then show ?case by simp
next
  case (Cons c cs)
  from Cons.prems(2) obtain rc s1 where s1: "g c st = Some (rc, s1)"
    by (cases "g c st") (auto simp: fold_children_None)
  with Cons.prems(2) have
    f: "fold (\<lambda>c r. case r of None \<Rightarrow> None | Some s \<Rightarrow> map_option snd (g c s)) cs (Some s1) = Some st'"
    by simp
  have "ext s1 st'"
    by (rule Cons.IH [OF _ f]) (rule Cons.prems(1), simp_all)
  moreover have "ext st s1"
    by (rule Cons.prems(1) [OF _ s1]) simp
  ultimately show ?case by (rule ext_trans [rotated])
qed

lemma ext_print_recursive_stats:
  assumes "\<And>nv pn par s rc s'. func nv pn par s = Some (rc, s') \<Longrightarrow> ext s s'"
  shows "print_recursive_stats func nvroot pool_name parent_name descend st = Some (rc, st')
    \<Longrightarrow> ext st st'"
  using assms
proof (induction func nvroot pool_name parent_name descend st arbitrary: rc st'
    rule: print_recursive_stats.induct)
  case (1 func nvroot pool_name parent_name descend st)
  note walk = "1.prems"(1) [unfolded print_recursive_stats.simps [of func nvroot]]
  from walk obtain err st1 where f: "func nvroot pool_name parent_name st = Some (err, st1)"
    by (cases "func nvroot pool_name parent_name st") auto
  have e1: "ext st st1" by (rule "1.prems"(2) [OF f])
  show ?case
  proof (cases "err = 0 \<and> descend \<and> CONFIG_CHILDREN nvroot \<noteq> None")
    case False
    with walk f have "st' = st1" by (auto split: if_splits option.splits)
    with e1 show ?thesis by simp
  next
    case True
    then obtain cs where cs: "CONFIG_CHILDREN nvroot = Some cs" by auto
    from True have d: descend by simp
    from True have e: "err = 0" by simp
    have "map_option (Pair 0)
            (fold (\<lambda>c r. case r of None \<Rightarrow> None
               | Some s \<Rightarrow> map_option snd
                   (print_recursive_stats func c pool_name
                      (Some (snprintf 256 (get_vdev_name nvroot parent_name))) descend s))
              cs (Some st1)) = Some (rc, st')"
      using walk
      by (simp only: f option.case prod.case e d cs Let_def if_True if_False simp_thms)
    then have
      fd: "fold (\<lambda>c r. case r of None \<Rightarrow> None
             | Some s \<Rightarrow> map_option snd
                 (print_recursive_stats func c pool_name
                    (Some (snprintf 256 (get_vdev_name nvroot parent_name))) descend s))
            cs (Some st1) = Some st'"
      by auto
    have "ext st1 st'"
    proof (rule ext_fold_children [OF _ fd])
      fix c s rc' s'
      assume "c \<in> set cs"
        and "print_recursive_stats func c pool_name
               (Some (snprintf 256 (get_vdev_name nvroot parent_name))) descend s = Some (rc', s')"
      with "1.IH" [OF f refl _ _ cs refl] True "1.prems"(2) show "ext s s'"
        by blast
    qed
    with e1 show ?thesis by (rule ext_trans)
  qed
qed

lemma walk_summary:
  "print_recursive_stats (print_summary_stats h) nv pn par d s = Some (rc, s') \<Longrightarrow> ext s s'"
  by (rule ext_print_recursive_stats [where func = "print_summary_stats h"])
     (rule ext_print_summary_stats, assumption+)

lemma walk_latency:
  "print_recursive_stats (print_vdev_latency_stats h) nv pn par d s = Some (rc, s') \<Longrightarrow> ext s s'"
  by (rule ext_print_recursive_stats [where func = "print_vdev_latency_stats h"])
     (rule ext_print_vdev_latency_stats, assumption+)

lemma walk_size:
  "print_recursive_stats (print_vdev_size_stats h) nv pn par d s = Some (rc, s') \<Longrightarrow> ext s s'"
  by (rule ext_print_recursive_stats [where func = "print_vdev_size_stats h"])
     (rule ext_print_vdev_size_stats, assumption+)

lemma walk_queue:
  "print_recursive_stats print_queue_stats nv pn par d s = Some (rc, s') \<Longrightarrow> ext s s'"
  by (rule ext_print_recursive_stats [where func = print_queue_stats])
     (rule ext_print_queue_stats, assumption+)

lemma ext_if_err_0:
  assumes "if_err_0 r f = Some (rc, st')"
    and "\<And>e s. r = Some (e, s) \<Longrightarrow> ext st s"
    and "\<And>s e s'. f s = Some (e, s') \<Longrightarrow> ext s s'"
  shows "ext st st'"
proof -
  from assms(1) obtain e s where r: "r = Some (e, s)"
    by (cases r) (auto simp: if_err_0_def)
  show ?thesis
  proof (cases "e = 0")
    case True
    with assms(1) r have "f s = Some (rc, st')" by (simp add: if_err_0_def)
    from assms(2) [OF r] assms(3) [OF this] show ?thesis by (rule ext_trans)
  next
    case False
    with assms(1) r have "st' = s" by (simp add: if_err_0_def)
    with assms(2) [OF r] show ?thesis by simp
  qed
qed

lemma ext_print_stats:
  assumes "print_stats h zhp data st = Some (rc, st')"
  shows "ext st st'"
proof (cases "\<exists>nvroot vs. \<not> (case data of None \<Rightarrow> False
          | Some d \<Rightarrow> take ZFS_MAX_DATASET_NAME_LEN d \<noteq> take ZFS_MAX_DATASET_NAME_LEN (zpool_name zhp))
        \<and> zpool_refresh_stats zhp = 0 \<and> CONFIG_VDEV_TREE zhp = Some nvroot
        \<and> CONFIG_VDEV_STATS nvroot = Some vs")
  case False
  with assms have "st' = st"
    by (auto simp: print_stats_def split: if_splits option.splits)
  then show ?thesis by simp
next
  case True
  then obtain nvroot vs where t: "CONFIG_VDEV_TREE zhp = Some nvroot" "CONFIG_VDEV_STATS nvroot = Some vs"
    and go: "\<not> (case data of None \<Rightarrow> False
          | Some d \<Rightarrow> take ZFS_MAX_DATASET_NAME_LEN d \<noteq> take ZFS_MAX_DATASET_NAME_LEN (zpool_name zhp))"
       "zpool_refresh_stats zhp = 0"
    by blast
  define pool_name where "pool_name = escape_string (zpool_name zhp)"
  define st0 where "st0 = printf (Comment (''### '' @ COMMAND_NAME @ '' stats for '' @ pool_name)) st"
  define r1 where "r1 = print_recursive_stats (print_summary_stats h) nvroot pool_name None True st0"
  define r2 where "r2 = if_err_0 r1 (print_recursive_stats (print_vdev_latency_stats h) nvroot pool_name None True)"
  define r3 where "r3 = if_err_0 r2 (print_recursive_stats (print_vdev_size_stats h) nvroot pool_name None True)"
  define r4 where "r4 = if_err_0 r3 (print_recursive_stats print_queue_stats nvroot pool_name None False)"
  define r5 where "r5 = if_err_0 r4 (print_scan_status h nvroot pool_name)"
  from assms t go have "map_option (\<lambda>(err, st). (0 :: int, st)) r5 = Some (rc, st')"
    by (simp add: print_stats_def Let_def r5_def r4_def r3_def r2_def r1_def st0_def pool_name_def)
  then obtain e where r5: "r5 = Some (e, st')" by auto
  have e0: "ext st st0"
    by (simp add: st0_def plain_line)
  have e1: "ext st s" if "r1 = Some (e, s)" for e s
    using e0 that [unfolded r1_def, THEN walk_summary] by (rule ext_trans)
  have e2: "ext st s" if "r2 = Some (e, s)" for e s
    by (rule ext_if_err_0 [OF that [unfolded r2_def]]) (erule e1, erule walk_latency)
  have e3: "ext st s" if "r3 = Some (e, s)" for e s
    by (rule ext_if_err_0 [OF that [unfolded r3_def]]) (erule e2, erule walk_size)
  have e4: "ext st s" if "r4 = Some (e, s)" for e s
    by (rule ext_if_err_0 [OF that [unfolded r4_def]]) (erule e3, erule walk_queue)
  have e5: "ext st s" if "r5 = Some (e, s)" for e s
    by (rule ext_if_err_0 [OF that [unfolded r5_def]]) (erule e4, erule ext_print_scan_status)
  from e5 [OF r5] show ?thesis .
qed

lemma ext_zpool_iter:
  assumes "\<And>zhp s rc s'. func zhp s = Some (rc, s') \<Longrightarrow> ext s s'"
  shows "zpool_iter func pools st = Some (rc, st') \<Longrightarrow> ext st st'"
proof (induction pools arbitrary: st)
  case Nil
  then show ?case by simp
next
  case (Cons zhp pools)
  from Cons.prems obtain ret s1 where f: "func zhp st = Some (ret, s1)"
    by (cases "func zhp st") auto
  show ?case
  proof (cases "ret = 0")
    case True
    with Cons.prems f have "zpool_iter func pools s1 = Some (rc, st')" by simp
    from assms [OF f] Cons.IH [OF this] show ?thesis by (rule ext_trans)
  next
    case False
    with Cons.prems f assms [OF f] show ?thesis by simp
  qed
qed

lemma declared_once_main:
  assumes "main h libzfs_init argv pools = Some (rc, st')"
  shows "declared_once st'"
proof -
  have "ext init_state st'"
  proof (cases libzfs_init)
    case False
    with assms show ?thesis by (auto simp: main_def ext_fprintf_stderr)
  next
    case True
    with assms show ?thesis
      by (auto simp: main_def split: if_splits
          intro: ext_zpool_iter [rotated] ext_print_stats)
  qed
  with declared_once_init show ?thesis by (simp add: ext_def)
qed

lemma printed_main_once:
  "help_count n (printed (main h libzfs_init argv pools)) \<le> 1
   \<and> type_count n (printed (main h libzfs_init argv pools)) \<le> 1"
proof (cases "main h libzfs_init argv pools")
  case None
  then show ?thesis by (simp add: printed_def)
next
  case (Some r)
  obtain rc st' where r: "r = (rc, st')" by (cases r)
  from declared_once_main [OF Some [unfolded r]] show ?thesis
    by (simp add: printed_def Some r declared_once_def)
qed


section \<open>Errors below the root of a pool\<close>

lemma returned_Some: "returned r = Some c \<longleftrightarrow> (\<exists>s. r = Some (c, s))"
  by (cases r) (auto simp: returned_def)

lemma latency_loop_i_returns_0:
  assumes "\<forall>e \<in> set tbl. \<exists>a. uint64_array nv_ex (fst e) = Some a \<and> a \<noteq> []"
  shows "returned (latency_loop_i tbl nv_ex pool_name vdev_desc st) = Some 0"
  using assms
proof (induction tbl arbitrary: st)
  case Nil
  show ?case by (simp add: returned_def)
next
  case (Cons e tbl)
  obtain name short_name where e: "e = (name, short_name)" by (cases e)
  from Cons.prems obtain a where a: "uint64_array nv_ex name = Some a" "a \<noteq> []"
    by (auto simp: e)
  have "returned (latency_loop_i tbl nv_ex pool_name vdev_desc s) = Some 0" for s
    using Cons.prems by (intro Cons.IH) simp
  then show ?case by (simp add: e a Let_def)
qed

lemma size_loop_i_returns_0:
  assumes "\<forall>e \<in> set tbl. \<exists>a. uint64_array nv_ex (fst e) = Some a \<and> a \<noteq> []"
  shows "returned (size_loop_i tbl nv_ex pool_name vdev_desc st) = Some 0"
  using assms
proof (induction tbl arbitrary: st)
  case Nil
  show ?case by (simp add: returned_def)
next
  case (Cons e tbl)
  obtain name short_name where e: "e = (name, short_name)" by (cases e)
  from Cons.prems obtain a where a: "uint64_array nv_ex name = Some a" "a \<noteq> []"
    by (auto simp: e)
  have "returned (size_loop_i tbl nv_ex pool_name vdev_desc s) = Some 0" for s
    using Cons.prems by (intro Cons.IH) simp
  then show ?case by (simp add: e a Let_def)
qed

lemma queue_loop_i_returns_0:
  assumes "\<forall>e \<in> set tbl. uint64 nv_ex (fst e) \<noteq> None"
  shows "fst (queue_loop_i tbl nv_ex s st) = 0"
  using assms
proof (induction tbl arbitrary: st)
  case Nil
  show ?case by simp
next
  case (Cons e tbl)
  obtain name short_name where e: "e = (name, short_name)" by (cases e)
  from Cons.prems obtain v where v: "uint64 nv_ex name = Some v"
    by (auto simp: e)
  have "fst (queue_loop_i tbl nv_ex s st') = 0" for st'
    using Cons.prems by (intro Cons.IH) simp
  then show ?case by (simp add: e v)
qed

lemma summary_returns_0:
  "returned (print_summary_stats h nvroot pool_name parent_name st) = Some 0"
  by (simp add: print_summary_stats_def returned_def Let_def split: option.splits)

lemma ext_set: "ext st st' \<Longrightarrow> set (out st) \<subseteq> set (out st')"
  by (auto simp: ext_def)

text \<open>A non-zero result of the walk is the result of the printer on the node itself.\<close>

lemma walk_nonzero_is_root:
  assumes "print_recursive_stats func nvroot pool_name parent_name descend st = Some (rc, st')"
    and "rc \<noteq> 0"
  shows "func nvroot pool_name parent_name st = Some (rc, st')"
  using assms
  by (subst (asm) print_recursive_stats.simps)
     (auto simp: Let_def split: option.splits if_splits)

lemma walk_one_leaf:
  assumes root: "\<And>s. returned (func nvroot pool_name parent_name s) = Some 0"
    and cs: "CONFIG_CHILDREN nvroot = Some [leaf]" "CONFIG_CHILDREN leaf = None"
    and leaf: "\<And>s p. func leaf pool_name p s \<noteq> None"
  shows "returned (print_recursive_stats func nvroot pool_name parent_name True st) = Some 0"
proof -
  from root [of st] obtain s1 where s1: "func nvroot pool_name parent_name st = Some (0, s1)"
    by (auto simp: returned_Some)
  have "print_recursive_stats func leaf pool_name p True s \<noteq> None" for p s
    using leaf [of p s]
    by (subst print_recursive_stats.simps) (auto simp: cs split: option.splits)
  then obtain e s2 where
    "print_recursive_stats func leaf pool_name
       (Some (snprintf 256 (get_vdev_name nvroot parent_name))) True s1 = Some (e, s2)"
    by (metis option.exhaust surj_pair)
  then show ?thesis
    by (subst print_recursive_stats.simps) (simp add: s1 cs Let_def returned_def)
qed


lemma walk_no_descend:
  "print_recursive_stats func nvroot pool_name parent_name False st =
     func nvroot pool_name parent_name st"
  by (subst print_recursive_stats.simps) (auto split: option.splits)

lemma queue_first_sample:
  assumes "uint64 nv_ex name = Some v"
  shows "SampleU64 (snprintf 200 (POOL_QUEUE_MEASUREMENT @ ''_'' @ short_name)) (Some (L s)) (v AND mask 52)
           \<in> set (out (snd (queue_loop_i ((name, short_name) # rest) nv_ex s st)))"
proof -
  have "SampleU64 (snprintf 200 (POOL_QUEUE_MEASUREMENT @ ''_'' @ short_name)) (Some (L s)) (v AND mask 52)
          \<in> set (out (print_prom_u64 POOL_QUEUE_MEASUREMENT short_name (Some (L s)) v
                (Some ''queue depth'') (Some ''gauge'') st))"
    by (simp add: out_print_prom_u64)
  then show ?thesis
    by (simp only: queue_loop_i.simps prod.case assms option.case)
       (rule subsetD [OF ext_set [OF ext_queue_loop_i]])
qed

lemma example_root_latency:
  "returned (print_vdev_latency_stats h example_root pool_name parent_name st) = Some 0"
  by (simp add: print_vdev_latency_stats_def example_root_def Let_def
      latency_loop_i_returns_0 full_ex_def)

lemma example_root_size:
  "returned (print_vdev_size_stats h example_root pool_name parent_name st) = Some 0"
  by (simp add: print_vdev_size_stats_def example_root_def Let_def
      size_loop_i_returns_0 full_ex_def)

lemma example_leaf_no_ex:
  "print_vdev_latency_stats h example_leaf pool_name parent_name st = Some (6, st)"
  "print_vdev_size_stats h example_leaf pool_name parent_name st = Some (6, st)"
  by (simp_all add: print_vdev_latency_stats_def print_vdev_size_stats_def example_leaf_def)

lemma example_children:
  "CONFIG_CHILDREN example_root = Some [example_leaf]" "CONFIG_CHILDREN example_leaf = None"
  by (simp_all add: example_root_def example_leaf_def)

lemma example_root_queue:
  "\<exists>s'. print_queue_stats example_root ''tank'' None st = Some (0, s')
     \<and> SampleU64 ''zpool_vdev_sync_r_active_queue'' (Some (L ''name=\"tank\",vdev=\"root\"'')) 0
         \<in> set (out s')"
proof -
  have d: "get_vdev_desc example_root None = ''vdev=\"root\"''"
    by (simp add: get_vdev_desc_def example_root_def snprintf_def)
  have q: "queue_type = (''vdev_sync_r_active_queue'', ''sync_r_active_queue'') # tl queue_type"
    by (simp add: queue_type_def)
  have n: "snprintf 200 (POOL_QUEUE_MEASUREMENT @ ''_'' @ ''sync_r_active_queue'')
           = ''zpool_vdev_sync_r_active_queue''"
    by (simp add: snprintf_def POOL_QUEUE_MEASUREMENT_def)
  have "fst (queue_loop_i queue_type full_ex s st) = 0" for s
    by (rule queue_loop_i_returns_0) (simp add: full_ex_def)
  moreover have "SampleU64 ''zpool_vdev_sync_r_active_queue'' (Some (L s)) (0 AND mask 52)
      \<in> set (out (snd (queue_loop_i queue_type full_ex s st)))" for s
    using queue_first_sample [of full_ex "''vdev_sync_r_active_queue''" 0 "''sync_r_active_queue''"
        s "tl queue_type" st]
    by (simp only: n flip: q) (simp add: full_ex_def)
  ultimately show ?thesis
    by (simp add: print_queue_stats_def example_root_def [THEN arg_cong [where f = CONFIG_VDEV_STATS_EX]]
        Let_def d prod_eq_iff snprintf_def ZFS_MAX_DATASET_NAME_LEN_def)
qed

text \<open>
  When the latency printer fails on the root vdev itself, \<open>print_stats\<close> prints nothing
  after the failure and returns 0, so that \<open>zpool_iter\<close> goes on to the next pool.
\<close>

lemma root_error_skips_rest:
  assumes "CONFIG_VDEV_TREE zhp = Some nvroot" and "CONFIG_VDEV_STATS nvroot = Some vs"
    and "zpool_refresh_stats zhp = 0"
    and "print_recursive_stats (print_summary_stats h) nvroot (escape_string (zpool_name zhp)) None
           True (printf (Comment (''### '' @ COMMAND_NAME @ '' stats for ''
                   @ escape_string (zpool_name zhp))) st) = Some (0, s1)"
    and "print_vdev_latency_stats h nvroot (escape_string (zpool_name zhp)) None s1 = Some (e, s2)"
    and "e \<noteq> 0"
  shows "print_stats h zhp None st = Some (0, s2)"
    and "zpool_iter (\<lambda>zhp. print_stats h zhp None) (zhp # rest) st
           = zpool_iter (\<lambda>zhp. print_stats h zhp None) rest s2"
proof -
  have w: "print_recursive_stats (print_vdev_latency_stats h) nvroot (escape_string (zpool_name zhp))
             None True s1 = Some (e, s2)"
    using assms(5,6) by (subst print_recursive_stats.simps) simp
  show ps: "print_stats h zhp None st = Some (0, s2)"
    using assms(6)
    by (simp only: print_stats_def Let_def assms(1,2,3,4) option.case if_False if_True simp_thms
        if_err_0_def prod.case w)
       simp
  show "zpool_iter (\<lambda>zhp. print_stats h zhp None) (zhp # rest) st
           = zpool_iter (\<lambda>zhp. print_stats h zhp None) rest s2"
    by (simp add: ps)
qed

text \<open>
  C7. An error of a printer on the root vdev ends the output for the pool (lemma
  \<open>root_error_skips_rest\<close>), and a non-zero result of the walk is always the result of
  the printer on the root (lemma \<open>walk_nonzero_is_root\<close>): \<open>print_recursive_stats\<close> calls
  itself on each child without looking at what the call returns. For the pool \<open>tank\<close>
  whose disk below the root has no extended statistics, the latency printer returns 6 on the
  disk, and the program still prints the queue depths and the scan statistics of the pool,
  and exits with 0.
\<close>

theorem child_error_not_propagated:
  "returned (print_vdev_latency_stats example_env example_leaf ''tank'' (Some ''root'') init_state)
     = Some 6
   \<and> returned (main example_env True [''zpool_prometheus''] [example_pool]) = Some 0
   \<and> SampleU64 ''zpool_vdev_sync_r_active_queue'' (Some (L ''name=\"tank\",vdev=\"root\"'')) 0
       \<in> set (printed (main example_env True [''zpool_prometheus''] [example_pool]))
   \<and> last (u64_samples ''zpool_scan_stats_issued_bytes_per_second''
        (printed (main example_env True [''zpool_prometheus''] [example_pool]))) = 1"
proof -
  define st0 where
    "st0 = printf (Comment ''### zpool_prometheus stats for tank'') init_state"
  have leaf1: "print_summary_stats example_env example_leaf ''tank'' p s \<noteq> None" for p s
    using summary_returns_0 [of example_env example_leaf "''tank''" p s]
    by (auto simp: returned_Some)
  obtain s1 where s1: "print_recursive_stats (print_summary_stats example_env) example_root ''tank''
      None True st0 = Some (0, s1)"
    using walk_one_leaf [of "print_summary_stats example_env" example_root "''tank''" None
        example_leaf st0, OF summary_returns_0 example_children leaf1]
    by (auto simp: returned_Some)
  obtain s2 where s2: "print_recursive_stats (print_vdev_latency_stats example_env) example_root
      ''tank'' None True s1 = Some (0, s2)"
    using walk_one_leaf [of "print_vdev_latency_stats example_env" example_root "''tank''" None
        example_leaf s1, OF example_root_latency example_children]
    by (auto simp: returned_Some example_leaf_no_ex)
  obtain s3 where s3: "print_recursive_stats (print_vdev_size_stats example_env) example_root
      ''tank'' None True s2 = Some (0, s3)"
    using walk_one_leaf [of "print_vdev_size_stats example_env" example_root "''tank''" None
        example_leaf s2, OF example_root_size example_children]
    by (auto simp: returned_Some example_leaf_no_ex)
  obtain s4 where s4: "print_queue_stats example_root ''tank'' None s3 = Some (0, s4)"
    and q: "SampleU64 ''zpool_vdev_sync_r_active_queue'' (Some (L ''name=\"tank\",vdev=\"root\"'')) 0
         \<in> set (out s4)"
    using example_root_queue [of s3] by blast
  have v: "unat (pss_state finished_scan) < DSS_NUM_STATES example_env"
    "unat (pss_func finished_scan) < POOL_SCAN_FUNCS example_env"
    by (simp_all add: finished_scan_def example_env_def)
  note sc = scan_status_rate_samples [OF v, of "Some ''root''" "Some 0" None "Some example_vdev_stat"
      "Some full_ex" "Some [example_leaf]" "''tank''" s4, folded example_root_def]
  from sc obtain s5 where s5: "print_scan_status example_env example_root ''tank'' s4 = Some (0, s5)"
    by (auto simp: returned_Some)
  from sc have r: "last (u64_samples ''zpool_scan_stats_issued_bytes_per_second'' (out s5)) = 1"
    by (simp add: s5 printed_def finished_scan_def DSS_SCANNING_def)
  from ext_set [OF ext_print_scan_status [OF s5]] q
  have q5: "SampleU64 ''zpool_vdev_sync_r_active_queue'' (Some (L ''name=\"tank\",vdev=\"root\"'')) 0
         \<in> set (out s5)"
    by blast
  have ps: "print_stats example_env example_pool None init_state = Some (0, s5)"
    by (simp add: print_stats_def example_pool_def Let_def if_err_0_def s1 s2 s3 s4 s5
        walk_no_descend COMMAND_NAME_def st0_def [symmetric]
        example_root_def [THEN arg_cong [where f = CONFIG_VDEV_STATS]])
  have m: "main example_env True [''zpool_prometheus''] [example_pool] = Some (0, s5)"
    by (simp add: main_def ps)
  from q5 r show ?thesis
    by (simp add: m returned_def printed_def example_leaf_no_ex)
qed


section \<open>One HELP and one TYPE line for a name\<close>

text \<open>
  The registry makes \<open>print_help_type\<close> print the HELP and TYPE lines of a name at the
  first call for the name, which records it, and nothing at a later call; in the output of
  a run no name has more than one HELP line or more than one TYPE line from it (lemma
  \<open>printed_main_once\<close>).
\<close>

lemma print_help_type_first:
  "n \<notin> set (metric_names st) \<Longrightarrow>
     out (print_help_type n (Some help) (Some ty) st) = out st @ [Help n help, Type n ty]
     \<and> n \<in> set (metric_names (print_help_type n (Some help) (Some ty) st))"
  by (simp add: out_print_help_type metric_names_print_help_type)

lemma print_help_type_later:
  "n \<in> set (metric_names st) \<Longrightarrow> print_help_type n help ty st = st"
  by (simp add: print_help_type_def)





end
